theory Spec2Isabelle
  imports Main "HOL-Library.Char_ord" "HOL-Library.List_Lexorder" "HOL-Library.Multiset"
begin

section \<open>Strings as the Go code uses them\<close>

text \<open>
  A Go string is a sequence of bytes; here it is a \<^typ>\<open>string\<close>. The functions of package
  \<open>strings\<close> that the migration engine calls are written out on bytes. \<open>strings.TrimSpace\<close>
  removes, at both ends, the characters that \<open>unicode.IsSpace\<close> accepts: tab, line feed,
  vertical tab, form feed, carriage return, space and, in their UTF-8 encodings, U+0085,
  U+00A0, U+1680, U+2000 to U+200A, U+2028, U+2029, U+202F, U+205F and U+3000.
  \<open>strings.ToLower\<close> lower-cases by the Unicode tables of the Go library, which are not
  written out: the functions that call it take it as their first argument, and what is
  proved of them holds whatever it returns.
\<close>

definition newline :: char where
  "newline = CHR 0x0A"

definition spaceRunes :: "string list" where
  \<comment> \<open>the UTF-8 encodings of the characters of \<open>unicode.IsSpace\<close>\<close>
  "spaceRunes =
     [[CHR 0x09], [CHR 0x0A], [CHR 0x0B], [CHR 0x0C], [CHR 0x0D], [CHR 0x20],
      [CHR 0xC2, CHR 0x85], [CHR 0xC2, CHR 0xA0], [CHR 0xE1, CHR 0x9A, CHR 0x80],
      [CHR 0xE2, CHR 0x80, CHR 0x80], [CHR 0xE2, CHR 0x80, CHR 0x81],
      [CHR 0xE2, CHR 0x80, CHR 0x82], [CHR 0xE2, CHR 0x80, CHR 0x83],
      [CHR 0xE2, CHR 0x80, CHR 0x84], [CHR 0xE2, CHR 0x80, CHR 0x85],
      [CHR 0xE2, CHR 0x80, CHR 0x86], [CHR 0xE2, CHR 0x80, CHR 0x87],
      [CHR 0xE2, CHR 0x80, CHR 0x88], [CHR 0xE2, CHR 0x80, CHR 0x89],
      [CHR 0xE2, CHR 0x80, CHR 0x8A], [CHR 0xE2, CHR 0x80, CHR 0xA8],
      [CHR 0xE2, CHR 0x80, CHR 0xA9], [CHR 0xE2, CHR 0x80, CHR 0xAF],
      [CHR 0xE2, CHR 0x81, CHR 0x9F], [CHR 0xE3, CHR 0x80, CHR 0x80]]"

definition isDigit :: "char \<Rightarrow> bool" where
  "isDigit c = (c \<in> set ''0123456789'')"

definition isLower :: "char \<Rightarrow> bool" where
  "isLower c = (c \<in> set ''abcdefghijklmnopqrstuvwxyz'')"

definition isUpper :: "char \<Rightarrow> bool" where
  "isUpper c = (c \<in> set ''ABCDEFGHIJKLMNOPQRSTUVWXYZ'')"

definition isWordChar :: "char \<Rightarrow> bool" where
  \<comment> \<open>the character class \<open>[a-zA-Z0-9_]\<close>\<close>
  "isWordChar c = (isLower c \<or> isUpper c \<or> isDigit c \<or> c = CHR ''_'')"

definition HasPrefix :: "string \<Rightarrow> string \<Rightarrow> bool" where
  "HasPrefix s p = (length p \<le> length s \<and> take (length p) s = p)"

definition HasSuffix :: "string \<Rightarrow> string \<Rightarrow> bool" where
  "HasSuffix s p = (length p \<le> length s \<and> drop (length s - length p) s = p)"

definition leadingSpace :: "string \<Rightarrow> nat" where
  \<comment> \<open>the width in bytes of the white space character a string begins with, 0 for none\<close>
  "leadingSpace s =
     (case find (\<lambda>q. HasPrefix s q) spaceRunes of None \<Rightarrow> 0 | Some q \<Rightarrow> length q)"

definition trailingSpace :: "string \<Rightarrow> nat" where
  \<comment> \<open>the width in bytes of the white space character a string ends with, 0 for none\<close>
  "trailingSpace s =
     (case find (\<lambda>q. HasSuffix s q) spaceRunes of None \<Rightarrow> 0 | Some q \<Rightarrow> length q)"

fun TrimLeft :: "string \<Rightarrow> string" where
  "TrimLeft [] = []"
| "TrimLeft (c # s) =
     (let n = leadingSpace (c # s) in if n = 0 then c # s else TrimLeft (drop (n - 1) s))"

fun trimEnd :: "string \<Rightarrow> string" where
  \<comment> \<open>on the reversed string: the bytes left once the white space at the end is removed\<close>
  "trimEnd [] = []"
| "trimEnd (c # r) =
     (let n = trailingSpace (rev (c # r)) in if n = 0 then c # r else trimEnd (drop (n - 1) r))"

definition TrimRight :: "string \<Rightarrow> string" where
  "TrimRight s = rev (trimEnd (rev s))"

definition TrimSpace :: "string \<Rightarrow> string" where
  "TrimSpace s = TrimRight (TrimLeft s)"

definition TrimSuffix :: "string \<Rightarrow> string \<Rightarrow> string" where
  "TrimSuffix s p = (if HasSuffix s p then take (length s - length p) s else s)"

fun Contains :: "string \<Rightarrow> string \<Rightarrow> bool" where
  "Contains [] sub = (sub = [])"
| "Contains (c # s) sub = (HasPrefix (c # s) sub \<or> Contains s sub)"

fun Split :: "string \<Rightarrow> char \<Rightarrow> string list" where
  \<comment> \<open>\<open>strings.Split\<close> with a one-byte separator: the empty string gives one empty piece\<close>
  "Split [] sep = [[]]"
| "Split (c # s) sep =
     (if c = sep then [] # Split s sep
      else (case Split s sep of [] \<Rightarrow> [[c]] | p # ps \<Rightarrow> (c # p) # ps))"

fun Join :: "string list \<Rightarrow> string \<Rightarrow> string" where
  "Join [] sep = []"
| "Join [x] sep = x"
| "Join (x # y # ys) sep = x @ sep @ Join (y # ys) sep"

definition LastIndex :: "string \<Rightarrow> char \<Rightarrow> int" where
  \<comment> \<open>index of the last occurrence of a byte, \<open>-1\<close> when there is none\<close>
  "LastIndex s c =
     (if c \<in> set s then int (length s) - 1 - int (length (takeWhile (\<lambda>x. x \<noteq> c) (rev s)))
      else - 1)"

fun digit_char :: "nat \<Rightarrow> char" where
  "digit_char n = (''0123456789'' ! (n mod 10))"

fun show_nat :: "nat \<Rightarrow> string" where
  \<comment> \<open>\<open>fmt.Sprintf("%d", n)\<close> for a non-negative \<open>n\<close>\<close>
  "show_nat n = (if n < 10 then [digit_char n] else show_nat (n div 10) @ [digit_char n])"

declare show_nat.simps [simp del]

section \<open>Errors (pkg/errors)\<close>

text \<open>
  \<open>MigrationError\<close> without its timestamp. A Go \<open>error\<close> that is \<open>nil\<close> is \<open>None\<close>.
\<close>

record MigrationError =
  ErrType :: string
  ErrMessage :: string
  ErrDetails :: string
  ErrMigration :: string

definition Error :: "MigrationError \<Rightarrow> string" where
  "Error e =
     (if ErrMigration e \<noteq> []
      then ''['' @ ErrType e @ ''] '' @ ErrMessage e @ '' (migration: '' @ ErrMigration e
           @ ''): '' @ ErrDetails e
      else ''['' @ ErrType e @ ''] '' @ ErrMessage e @ '': '' @ ErrDetails e)"

definition NewMigrationError :: "string \<Rightarrow> string \<Rightarrow> string \<Rightarrow> MigrationError" where
  "NewMigrationError message details migration =
     \<lparr>ErrType = ''migration'', ErrMessage = message, ErrDetails = details,
      ErrMigration = migration\<rparr>"

definition NewValidationError :: "string \<Rightarrow> string \<Rightarrow> MigrationError" where
  "NewValidationError message details =
     \<lparr>ErrType = ''validation'', ErrMessage = message, ErrDetails = details,
      ErrMigration = []\<rparr>"

definition NewFileError :: "string \<Rightarrow> string \<Rightarrow> MigrationError" where
  "NewFileError message details =
     \<lparr>ErrType = ''file'', ErrMessage = message, ErrDetails = details, ErrMigration = []\<rparr>"

section \<open>Names and filenames (package utils)\<close>

fun camelBoundaries :: "string \<Rightarrow> string" where
  \<comment> \<open>\<open>([a-z0-9])([A-Z])\<close> replaced by \<open>${1}_${2}\<close>, leftmost matches, not overlapping\<close>
  "camelBoundaries (a # b # s) =
     (if (isLower a \<or> isDigit a) \<and> isUpper b
      then a # CHR ''_'' # b # camelBoundaries s
      else a # camelBoundaries (b # s))"
| "camelBoundaries s = s"

fun collapseUnderscores :: "string \<Rightarrow> string" where
  \<comment> \<open>\<open>_+\<close> replaced by \<open>_\<close>\<close>
  "collapseUnderscores (a # b # s) =
     (if a = CHR ''_'' \<and> b = CHR ''_'' then collapseUnderscores (b # s)
      else a # collapseUnderscores (b # s))"
| "collapseUnderscores s = s"

definition trimUnderscores :: "string \<Rightarrow> string" where
  \<comment> \<open>\<open>strings.Trim(s, "_")\<close>\<close>
  "trimUnderscores s =
     rev (dropWhile (\<lambda>c. c = CHR ''_'') (rev (dropWhile (\<lambda>c. c = CHR ''_'') s)))"

definition ToSnakeCase :: "(string \<Rightarrow> string) \<Rightarrow> string \<Rightarrow> string" where
  \<comment> \<open>the first argument is \<open>strings.ToLower\<close>\<close>
  "ToSnakeCase ToLower s =
     (if s = [] then []
      else trimUnderscores (collapseUnderscores
             (map (\<lambda>c. if c = CHR '' '' \<or> c = CHR ''-'' then CHR ''_'' else c)
                (ToLower (camelBoundaries s)))))"

definition ValidateMigrationName :: "string \<Rightarrow> bool" where
  "ValidateMigrationName name = (name \<noteq> [] \<and> list_all isWordChar name)"

definition SanitizeMigrationName :: "(string \<Rightarrow> string) \<Rightarrow> string \<Rightarrow> string" where
  "SanitizeMigrationName ToLower name =
     (let name1 = ToSnakeCase ToLower name;
          name2 = filter isWordChar name1
      in if length name2 > 0 \<and> isDigit (hd name2) then ''migration_'' @ name2 else name2)"

definition timestampShape :: "string \<Rightarrow> bool" where
  \<comment> \<open>\<open>\d{4}_\d{2}_\d{2}_\d{6}\<close> on exactly 17 bytes\<close>
  "timestampShape t =
     (length t = 17 \<and> list_all isDigit (take 4 t) \<and> t ! 4 = CHR ''_''
      \<and> list_all isDigit (take 2 (drop 5 t)) \<and> t ! 7 = CHR ''_''
      \<and> list_all isDigit (take 2 (drop 8 t)) \<and> t ! 10 = CHR ''_''
      \<and> list_all isDigit (drop 11 t))"

definition ParseMigrationFilename :: "string \<Rightarrow> (string \<times> string) option" where
  \<comment> \<open>\<open>^(\d{4}_\d{2}_\d{2}_\d{6})_(.+)$\<close>: the timestamp and the name, \<open>None\<close> for
      \<open>valid = false\<close>. The dot of the pattern matches every byte but a line feed.\<close>
  "ParseMigrationFilename filename =
     (let f = TrimSuffix filename ''.sql''
      in if 18 < length f \<and> timestampShape (take 17 f) \<and> f ! 17 = CHR ''_''
            \<and> newline \<notin> set (drop 18 f)
         then Some (take 17 f, drop 18 f) else None)"

definition GenerateMigrationFilename ::
  "(string \<Rightarrow> string) \<Rightarrow> string \<Rightarrow> string \<Rightarrow> string" where
  \<comment> \<open>the second argument is \<open>GenerateTimestamp()\<close>, the clock as the function reads it\<close>
  "GenerateMigrationFilename ToLower timestamp name =
     timestamp @ ''_'' @ SanitizeMigrationName ToLower name @ ''.sql''"

definition GenerateMigration_filename ::
  "(string \<Rightarrow> string) \<Rightarrow> string \<Rightarrow> string \<Rightarrow> string" where
  \<comment> \<open>the filename that \<open>Generator.GenerateMigration\<close> builds: the name is sanitised when
      it is not valid, then handed to \<open>GenerateMigrationFilename\<close>\<close>
  "GenerateMigration_filename ToLower timestamp name =
     (let name1 = (if \<not> ValidateMigrationName name then SanitizeMigrationName ToLower name
                   else name)
      in GenerateMigrationFilename ToLower timestamp name1)"

section \<open>Migration definitions and discovery (Generator)\<close>

text \<open>
  The \<open>Migration\<close> struct without its two time fields. The same struct holds a definition
  parsed from a file and a row scanned from the tracking table.
\<close>

record Migration =
  ID :: int
  Name :: string
  Filename :: string
  Filepath :: string
  Batch :: int
  Checksum :: string
  UpSQL :: string
  DownSQL :: string

datatype currentSection = NoSection | UpSection | DownSection

fun parseLines :: "string list \<Rightarrow> currentSection \<Rightarrow> string list \<times> string list" where
  \<comment> \<open>the loop of \<open>parseMigrationContent\<close>: the lines of the up and of the down section\<close>
  "parseLines [] cur = ([], [])"
| "parseLines (line # rest) cur =
     (let trimmed = TrimSpace line
      in if Contains trimmed ''-- +migrate Up'' then parseLines rest UpSection
         else if Contains trimmed ''-- +migrate Down'' then parseLines rest DownSection
         else (case parseLines rest cur of
                 (ups, downs) \<Rightarrow>
                   (case cur of
                      UpSection \<Rightarrow> (line # ups, downs)
                    | DownSection \<Rightarrow> (ups, line # downs)
                    | NoSection \<Rightarrow> (ups, downs))))"

definition parseMigrationContent :: "string \<Rightarrow> string \<times> string" where
  "parseMigrationContent content =
     (case parseLines (Split content newline) NoSection of
        (ups, downs) \<Rightarrow> (Join ups [newline], Join downs [newline]))"

text \<open>
  The file system under the migrations directory. A file holds its content, or the text of
  the error that reading it gives; a directory holds its entries, or cannot be listed.
  \<open>filepath.WalkDir\<close> calls its function on every node of the tree, a directory before
  its entries and the entries in the order of their names; the calls are the list of
  \<open>visit\<close>s below. The root is visited under the path given; the path of an entry is
  \<open>filepath.Join\<close> of the path of its directory and its name, which is cleaned as
  \<open>filepath.Clean\<close> does on a system whose separator is the slash. \<open>sort.Slice\<close> leaves the
  order of definitions with equal filenames open; \<open>sort_key\<close> keeps them as they came, and
  no property below depends on it.
\<close>

definition cleanStep :: "bool \<Rightarrow> string \<Rightarrow> string list \<Rightarrow> string list" where
  \<comment> \<open>one element of a path added to the elements kept so far: \<open>..\<close> removes the element
      before it, is dropped at the root and is kept at the start of a relative path\<close>
  "cleanStep rooted elem out =
     (if elem = ''..''
      then (if out \<noteq> [] \<and> last out \<noteq> ''..'' then butlast out
            else if rooted then out else out @ [''..''])
      else out @ [elem])"

definition Clean :: "string \<Rightarrow> string" where
  "Clean path =
     (if path = [] then ''.''
      else (let rooted = (hd path = CHR ''/'');
                elems = filter (\<lambda>e. e \<noteq> [] \<and> e \<noteq> ''.'') (Split path CHR ''/'');
                out = fold (cleanStep rooted) elems []
            in if rooted then ''/'' @ Join out ''/''
               else if out = [] then ''.'' else Join out ''/''))"

definition joinPath :: "string \<Rightarrow> string \<Rightarrow> string" where
  \<comment> \<open>\<open>filepath.Join\<close> of two elements: empty ones are ignored, the result is cleaned\<close>
  "joinPath dir name =
     (if dir = [] \<and> name = [] then []
      else if dir = [] then Clean name
      else if name = [] then Clean dir
      else Clean (dir @ ''/'' @ name))"

datatype fsnode =
    File string "string + string"
  | Dir string "fsnode list"
  | NoAccess string string

fun node_name :: "fsnode \<Rightarrow> string" where
  "node_name (File n c) = n"
| "node_name (Dir n es) = n"
| "node_name (NoAccess n e) = n"

datatype visit =
    VisitDir string
  | VisitFile string "string + string"
  | VisitErr string string

fun walkDir :: "string \<Rightarrow> fsnode \<Rightarrow> visit list" where
  "walkDir path (File n c) = [VisitFile path c]"
| "walkDir path (NoAccess n e) = [VisitDir path, VisitErr path e]"
| "walkDir path (Dir n es) =
     VisitDir path #
       concat (map (\<lambda>e. walkDir (joinPath path (node_name e)) e) (sort_key node_name es))"

definition WalkDir :: "string \<Rightarrow> fsnode \<Rightarrow> visit list" where
  \<comment> \<open>the root is visited under the path given, whatever its own name\<close>
  "WalkDir root tree = walkDir root tree"

definition ReadFile :: "string + string \<Rightarrow> MigrationError + string" where
  "ReadFile c =
     (case c of Inl e \<Rightarrow> Inl (NewFileError ''Failed to read file'' e) | Inr s \<Rightarrow> Inr s)"

definition baseName :: "string \<Rightarrow> string" where
  \<comment> \<open>\<open>filepath[strings.LastIndex(filepath, "/")+1:]\<close>\<close>
  "baseName filepath = drop (nat (LastIndex filepath CHR ''/'' + 1)) filepath"

definition loadMigrationFile ::
  "(string \<Rightarrow> string) \<Rightarrow> string \<Rightarrow> string + string \<Rightarrow> MigrationError + Migration" where
  \<comment> \<open>the first argument is \<open>calculateChecksum\<close>: SHA-256 in hexadecimal\<close>
  "loadMigrationFile checksum filepath c =
     (case ReadFile c of
        Inl e \<Rightarrow> Inl e
      | Inr content \<Rightarrow>
          (let filename = baseName filepath
           in case ParseMigrationFilename filename of
                None \<Rightarrow> Inl (NewValidationError ''Invalid migration filename'' filename)
              | Some (ts, name) \<Rightarrow>
                  (case parseMigrationContent content of
                     (upSQL, downSQL) \<Rightarrow>
                       Inr \<lparr>ID = 0, Name = name, Filename = filename, Filepath = filepath,
                            Batch = 0, Checksum = checksum content, UpSQL = upSQL,
                            DownSQL = downSQL\<rparr>)))"

fun walkFn ::
  "(string \<Rightarrow> string) \<Rightarrow> visit list \<Rightarrow> Migration list \<Rightarrow> string + Migration list" where
  \<comment> \<open>the function handed to \<open>WalkDir\<close>, over the calls in order; the first error it
      returns ends the walk, and \<open>LoadMigrations\<close> keeps its text only\<close>
  "walkFn checksum [] migrations = Inr migrations"
| "walkFn checksum (VisitErr p e # vs) migrations = Inl e"
| "walkFn checksum (VisitDir p # vs) migrations = walkFn checksum vs migrations"
| "walkFn checksum (VisitFile p c # vs) migrations =
     (if \<not> HasSuffix p ''.sql'' then walkFn checksum vs migrations
      else (case loadMigrationFile checksum p c of
              Inl e \<Rightarrow> Inl (Error e)
            | Inr m \<Rightarrow> walkFn checksum vs (migrations @ [m])))"

definition EnsureDirectoryExists :: "string \<Rightarrow> fsnode option \<Rightarrow> MigrationError + fsnode" where
  \<comment> \<open>a missing directory is created, empty; a file in its place is an error\<close>
  "EnsureDirectoryExists path root =
     (case root of
        None \<Rightarrow> Inr (Dir [] [])
      | Some (File n c) \<Rightarrow> Inl (NewFileError ''Path exists but is not a directory'' path)
      | Some d \<Rightarrow> Inr d)"

definition LoadMigrations ::
  "(string \<Rightarrow> string) \<Rightarrow> string \<Rightarrow> fsnode option \<Rightarrow> MigrationError + Migration list" where
  "LoadMigrations checksum migrationsPath root =
     (case EnsureDirectoryExists migrationsPath root of
        Inl e \<Rightarrow> Inl (NewFileError ''Failed to access migrations directory'' (Error e))
      | Inr tree \<Rightarrow>
          (case walkFn checksum (WalkDir migrationsPath tree) [] of
             Inl e \<Rightarrow> Inl (NewFileError ''Failed to load migrations'' e)
           | Inr migrations \<Rightarrow> Inr (sort_key Filename migrations)))"

section \<open>The tracking table (Tracker)\<close>

text \<open>
  The database is the tracking table, the sequence behind its \<open>BIGSERIAL\<close> key and the rest of
  the schema, of a type \<open>'u\<close> that the engine never inspects. A row has the columns \<open>id\<close>,
  \<open>migration\<close> (\<open>UNIQUE\<close>), \<open>batch\<close> and \<open>checksum\<close>; the two time columns are left out.
  The statements of a migration act on the schema through \<open>exec\<close>, which gives the new schema
  or the text of the database's error; they do not write to the tracking table. Queries of the
  engine itself reach the database: the connection does not fail.
\<close>

record LedgerRow =
  row_id :: int
  row_migration :: string
  row_batch :: int
  row_checksum :: string

record 'u Database =
  ledger :: "LedgerRow list"
  serial :: int
  schema :: 'u

type_synonym 'u exec = "string \<Rightarrow> 'u \<Rightarrow> string + 'u"

definition scanRow :: "LedgerRow \<Rightarrow> Migration" where
  "scanRow r =
     \<lparr>ID = row_id r, Name = row_migration r, Filename = [], Filepath = [],
      Batch = row_batch r, Checksum = row_checksum r, UpSQL = [], DownSQL = []\<rparr>"

definition GetExecutedMigrations :: "'u Database \<Rightarrow> Migration list" where
  \<comment> \<open>\<open>ORDER BY id ASC\<close>\<close>
  "GetExecutedMigrations db = map scanRow (sort_key row_id (ledger db))"

definition GetPendingMigrations :: "'u Database \<Rightarrow> Migration list \<Rightarrow> Migration list" where
  "GetPendingMigrations db allMigrations =
     (let executed = fold (\<lambda>m mp. mp(Name m := True)) (GetExecutedMigrations db) (\<lambda>n. False)
      in filter (\<lambda>m. \<not> executed (Name m)) allMigrations)"

definition uniqueViolation :: string where
  "uniqueViolation = ''duplicate key value violates unique constraint''"

definition RecordMigration ::
  "'u Database \<Rightarrow> Migration \<Rightarrow> int \<Rightarrow> MigrationError + 'u Database" where
  \<comment> \<open>the \<open>INSERT\<close>: refused when the name is in the table already\<close>
  "RecordMigration db migration batch =
     (if Name migration \<in> set (map row_migration (ledger db))
      then Inl (NewMigrationError ''Failed to record migration'' uniqueViolation (Name migration))
      else Inr (db\<lparr>ledger := ledger db @
                      [\<lparr>row_id = serial db, row_migration = Name migration, row_batch = batch,
                        row_checksum = Checksum migration\<rparr>],
                    serial := serial db + 1\<rparr>))"

definition RemoveMigration :: "'u Database \<Rightarrow> Migration \<Rightarrow> 'u Database" where
  \<comment> \<open>\<open>DELETE ... WHERE migration = $1\<close>\<close>
  "RemoveMigration db migration =
     db\<lparr>ledger := filter (\<lambda>r. row_migration r \<noteq> Name migration) (ledger db)\<rparr>"

fun sqlMax :: "int list \<Rightarrow> int option" where
  \<comment> \<open>\<open>MAX\<close> of a column: \<open>NULL\<close> on no rows\<close>
  "sqlMax [] = None"
| "sqlMax (x # xs) = Some (fold max xs x)"

definition GetLastBatch :: "'u Database \<Rightarrow> int" where
  \<comment> \<open>\<open>SELECT COALESCE(MAX(batch), 0)\<close>\<close>
  "GetLastBatch db = (case sqlMax (map row_batch (ledger db)) of None \<Rightarrow> 0 | Some b \<Rightarrow> b)"

definition GetMigrationsByBatch :: "'u Database \<Rightarrow> int \<Rightarrow> Migration list" where
  \<comment> \<open>\<open>WHERE batch = $1 ORDER BY id DESC\<close>\<close>
  "GetMigrationsByBatch db batch =
     map scanRow (rev (sort_key row_id (filter (\<lambda>r. row_batch r = batch) (ledger db))))"

definition storedChecksum :: "'u Database \<Rightarrow> string \<Rightarrow> string option" where
  \<comment> \<open>\<open>SELECT checksum ... WHERE migration = $1\<close>: \<open>None\<close> is \<open>pgx.ErrNoRows\<close>\<close>
  "storedChecksum db name =
     map_option row_checksum (find (\<lambda>r. row_migration r = name) (ledger db))"

definition VerifyChecksum :: "'u Database \<Rightarrow> Migration \<Rightarrow> MigrationError option" where
  "VerifyChecksum db migration =
     (case storedChecksum db (Name migration) of
        None \<Rightarrow> None
      | Some stored \<Rightarrow>
          (if stored \<noteq> Checksum migration
           then Some (NewValidationError
                        (''Migration '' @ Name migration @ '' has been modified'')
                        (''stored checksum: '' @ stored @ '', current checksum: ''
                           @ Checksum migration))
           else None))"

section \<open>Running and reverting migrations (Executor)\<close>

definition splitSQLStatements :: "string \<Rightarrow> string list" where
  "splitSQLStatements sql =
     filter (\<lambda>stmt. stmt \<noteq> []) (map TrimSpace (Split sql CHR '';''))"

fun execStatements ::
  "'u exec \<Rightarrow> string \<Rightarrow> nat \<Rightarrow> string list \<Rightarrow> 'u \<Rightarrow> MigrationError + 'u" where
  \<comment> \<open>the loop of \<open>executeMigrationSQL\<close> from index \<open>i\<close> on\<close>
  "execStatements exec migrationName i [] tx = Inr tx"
| "execStatements exec migrationName i (statement # rest) tx =
     (let statement1 = TrimSpace statement
      in if statement1 = [] then execStatements exec migrationName (i + 1) rest tx
         else if HasPrefix statement1 ''--''
         then execStatements exec migrationName (i + 1) rest tx
         else (case exec statement1 tx of
                 Inl err \<Rightarrow>
                   Inl (NewMigrationError
                          (''Failed to execute SQL statement '' @ show_nat (i + 1)) err
                          migrationName)
               | Inr tx1 \<Rightarrow> execStatements exec migrationName (i + 1) rest tx1))"

definition executeMigrationSQL ::
  "'u exec \<Rightarrow> 'u \<Rightarrow> string \<Rightarrow> string \<Rightarrow> MigrationError + 'u" where
  "executeMigrationSQL exec tx sql migrationName =
     (let sql1 = TrimSpace sql
      in if sql1 = [] then Inr tx
         else execStatements exec migrationName 0 (splitSQLStatements sql1) tx)"

definition runSingleMigration ::
  "'u exec \<Rightarrow> 'u Database \<Rightarrow> Migration \<Rightarrow> int \<Rightarrow> MigrationError option \<times> 'u Database" where
  \<comment> \<open>one transaction: an error leaves the database as it was\<close>
  "runSingleMigration exec db migration batch =
     (case executeMigrationSQL exec (schema db) (UpSQL migration) (Name migration) of
        Inl e \<Rightarrow> (Some e, db)
      | Inr tx \<Rightarrow>
          (case RecordMigration (db\<lparr>schema := tx\<rparr>) migration batch of
             Inl e \<Rightarrow> (Some e, db)
           | Inr db1 \<Rightarrow> (None, db1)))"

fun runEach ::
  "'u exec \<Rightarrow> 'u Database \<Rightarrow> Migration list \<Rightarrow> int \<Rightarrow> MigrationError option \<times> 'u Database" where
  "runEach exec db [] nextBatch = (None, db)"
| "runEach exec db (migration # rest) nextBatch =
     (case runSingleMigration exec db migration nextBatch of
        (Some e, db1) \<Rightarrow> (Some e, db1)
      | (None, db1) \<Rightarrow> runEach exec db1 rest nextBatch)"

definition limited :: "int \<Rightarrow> 'a list \<Rightarrow> 'a list" where
  \<comment> \<open>\<open>if limit > 0 && limit < len(xs) { xs = xs[:limit] }\<close>\<close>
  "limited limit xs = (if limit > 0 \<and> limit < int (length xs) then take (nat limit) xs else xs)"

definition Executor_RunMigrations ::
  "'u exec \<Rightarrow> 'u Database \<Rightarrow> Migration list \<Rightarrow> int \<Rightarrow> MigrationError option \<times> 'u Database"
  where
  "Executor_RunMigrations exec db migrations limit =
     (if length migrations = 0 then (None, db)
      else (let lastBatch = GetLastBatch db;
                nextBatch = lastBatch + 1
            in runEach exec db (limited limit migrations) nextBatch))"

definition rollbackSingleMigration ::
  "'u exec \<Rightarrow> 'u Database \<Rightarrow> Migration \<Rightarrow> MigrationError option \<times> 'u Database" where
  "rollbackSingleMigration exec db migration =
     (case executeMigrationSQL exec (schema db) (DownSQL migration) (Name migration) of
        Inl e \<Rightarrow> (Some e, db)
      | Inr tx \<Rightarrow> (None, RemoveMigration (db\<lparr>schema := tx\<rparr>) migration))"

fun rollbackEach ::
  "'u exec \<Rightarrow> 'u Database \<Rightarrow> Migration list \<Rightarrow> MigrationError option \<times> 'u Database" where
  "rollbackEach exec db [] = (None, db)"
| "rollbackEach exec db (migration # rest) =
     (case rollbackSingleMigration exec db migration of
        (Some e, db1) \<Rightarrow> (Some e, db1)
      | (None, db1) \<Rightarrow> rollbackEach exec db1 rest)"

definition Executor_RollbackMigrations ::
  "'u exec \<Rightarrow> 'u Database \<Rightarrow> Migration list \<Rightarrow> int \<Rightarrow> MigrationError option \<times> 'u Database"
  where
  "Executor_RollbackMigrations exec db migrations limit =
     (if length migrations = 0 then (None, db)
      else rollbackEach exec db (limited limit migrations))"

definition migrationsMap :: "Migration list \<Rightarrow> string \<rightharpoonup> Migration" where
  "migrationsMap allMigrations = fold (\<lambda>m mp. mp(Name m \<mapsto> m)) allMigrations Map.empty"

definition withDownSQL :: "Migration list \<Rightarrow> Migration list \<Rightarrow> Migration list" where
  \<comment> \<open>the definitions of the rows that have one, in the order of the rows\<close>
  "withDownSQL allMigrations rows =
     List.map_filter (\<lambda>row. migrationsMap allMigrations (Name row)) rows"

definition RollbackBatch ::
  "'u exec \<Rightarrow> 'u Database \<Rightarrow> int \<Rightarrow> Migration list \<Rightarrow> MigrationError option \<times> 'u Database"
  where
  "RollbackBatch exec db batch allMigrations =
     (let batchMigrations = GetMigrationsByBatch db batch
      in if length batchMigrations = 0 then (None, db)
         else Executor_RollbackMigrations exec db (withDownSQL allMigrations batchMigrations) 0)"

definition Executor_ResetAllMigrations ::
  "'u exec \<Rightarrow> 'u Database \<Rightarrow> Migration list \<Rightarrow> MigrationError option \<times> 'u Database" where
  "Executor_ResetAllMigrations exec db allMigrations =
     (let executedMigrations = GetExecutedMigrations db
      in if length executedMigrations = 0 then (None, db)
         else Executor_RollbackMigrations exec db
                (withDownSQL allMigrations (rev executedMigrations)) 0)"

section \<open>The operations (Manager)\<close>

text \<open>
  Every operation connects, makes sure the tracking table is there and loads the definitions
  from the directory; the connection and the creation of the table are taken to succeed.
\<close>

fun verifyChecksums :: "'u Database \<Rightarrow> Migration list \<Rightarrow> MigrationError option" where
  "verifyChecksums db [] = None"
| "verifyChecksums db (migration # rest) =
     (case VerifyChecksum db migration of
        Some e \<Rightarrow> Some e
      | None \<Rightarrow> verifyChecksums db rest)"

definition Manager_RunMigrations ::
  "'u exec \<Rightarrow> (MigrationError + Migration list) \<Rightarrow> 'u Database \<Rightarrow> int
     \<Rightarrow> MigrationError option \<times> 'u Database" where
  \<comment> \<open>the second argument is what \<open>LoadMigrations\<close> returned\<close>
  "Manager_RunMigrations exec loaded db limit =
     (case loaded of
        Inl e \<Rightarrow> (Some e, db)
      | Inr allMigrations \<Rightarrow>
          (let pendingMigrations = GetPendingMigrations db allMigrations
           in case verifyChecksums db allMigrations of
                Some e \<Rightarrow> (Some e, db)
              | None \<Rightarrow> Executor_RunMigrations exec db pendingMigrations limit))"

definition Manager_RollbackMigrations ::
  "'u exec \<Rightarrow> (MigrationError + Migration list) \<Rightarrow> 'u Database
     \<Rightarrow> MigrationError option \<times> 'u Database" where
  "Manager_RollbackMigrations exec loaded db =
     (case loaded of
        Inl e \<Rightarrow> (Some e, db)
      | Inr allMigrations \<Rightarrow>
          (let lastBatch = GetLastBatch db
           in if lastBatch = 0 then (None, db)
              else RollbackBatch exec db lastBatch allMigrations))"

definition Manager_RollbackSteps ::
  "'u exec \<Rightarrow> (MigrationError + Migration list) \<Rightarrow> 'u Database \<Rightarrow> int
     \<Rightarrow> MigrationError option \<times> 'u Database" where
  "Manager_RollbackSteps exec loaded db steps =
     (case loaded of
        Inl e \<Rightarrow> (Some e, db)
      | Inr allMigrations \<Rightarrow>
          (let executedMigrations = GetExecutedMigrations db
           in if length executedMigrations = 0 then (None, db)
              else Executor_RollbackMigrations exec db
                     (withDownSQL allMigrations (limited steps (rev executedMigrations))) 0))"

definition Manager_ResetAllMigrations ::
  "'u exec \<Rightarrow> (MigrationError + Migration list) \<Rightarrow> 'u Database
     \<Rightarrow> MigrationError option \<times> 'u Database" where
  "Manager_ResetAllMigrations exec loaded db =
     (case loaded of
        Inl e \<Rightarrow> (Some e, db)
      | Inr allMigrations \<Rightarrow> Executor_ResetAllMigrations exec db allMigrations)"

section \<open>Notions used to state the properties\<close>

fun visitAccepted :: "visit \<Rightarrow> bool" where
  \<comment> \<open>the calls of the walk on which the function handed to \<open>WalkDir\<close> returns no error\<close>
  "visitAccepted (VisitErr q e) = False"
| "visitAccepted (VisitDir q) = True"
| "visitAccepted (VisitFile q c) =
     (if HasSuffix q ''.sql'' then \<not> isl c \<and> ParseMigrationFilename (baseName q) \<noteq> None
      else True)"

fun sqlFiles :: "visit list \<Rightarrow> string list" where
  \<comment> \<open>the paths of the files of a walk that end in \<open>.sql\<close>\<close>
  "sqlFiles [] = []"
| "sqlFiles (VisitFile p c # vs) = (if HasSuffix p ''.sql'' then p # sqlFiles vs else sqlFiles vs)"
| "sqlFiles (v # vs) = sqlFiles vs"

fun runBodies :: "'u exec \<Rightarrow> 'u \<Rightarrow> (string \<times> string) list \<Rightarrow> MigrationError + 'u" where
  \<comment> \<open>SQL bodies (each with the name of its migration) executed one after the other\<close>
  "runBodies exec tx [] = Inr tx"
| "runBodies exec tx ((sql, name) # rest) =
     (case executeMigrationSQL exec tx sql name of
        Inl e \<Rightarrow> Inl e
      | Inr tx1 \<Rightarrow> runBodies exec tx1 rest)"

definition downBodies :: "Migration list \<Rightarrow> (string \<times> string) list" where
  "downBodies ms = map (\<lambda>m. (DownSQL m, Name m)) ms"

fun execAll :: "'u exec \<Rightarrow> string list \<Rightarrow> 'u \<Rightarrow> 'u option" where
  \<comment> \<open>statements handed to the database one after the other: the schema they leave, or
      \<open>None\<close> when one of them fails\<close>
  "execAll exec [] tx = Some tx"
| "execAll exec (stmt # rest) tx =
     (case exec stmt tx of Inl e \<Rightarrow> None | Inr tx1 \<Rightarrow> execAll exec rest tx1)"

definition statementsOf :: "string \<Rightarrow> string list" where
  \<comment> \<open>the statements of a body that reach the database: its trimmed fragments that are not
      empty and do not begin with \<open>--\<close>\<close>
  "statementsOf sql =
     filter (\<lambda>stmt. stmt \<noteq> [] \<and> \<not> HasPrefix stmt ''--'')
       (map TrimSpace (splitSQLStatements (TrimSpace sql)))"

definition revertedOutcome ::
  "'u exec \<Rightarrow> Migration list \<Rightarrow> 'u Database \<Rightarrow> LedgerRow list
     \<Rightarrow> MigrationError option \<times> 'u Database \<Rightarrow> bool" where
  \<comment> \<open>\<open>result\<close> is what reverting the selected \<open>rows\<close> of \<open>db\<close> comes to when the rows without a
      definition are passed over: the definitions reverted are loaded ones and bear the names
      of the selected rows that have a definition, in the order of the rows; on success the
      rows of these names are gone and the schema is the one left by the statements of their
      reverse bodies, executed in that order; an error is the error of one of them\<close>
  "revertedOutcome exec allMigrations db rows result =
     (let reverted = withDownSQL allMigrations (map scanRow rows)
      in set reverted \<subseteq> set allMigrations
         \<and> map Name reverted =
             filter (\<lambda>n. n \<in> Name ` set allMigrations) (map row_migration rows)
         \<and> (case fst result of
               None \<Rightarrow>
                 ledger (snd result) =
                   filter (\<lambda>x. row_migration x \<notin> Name ` set reverted) (ledger db)
                 \<and> execAll exec (concat (map (\<lambda>m. statementsOf (DownSQL m)) reverted))
                       (schema db) = Some (schema (snd result))
             | Some e \<Rightarrow> ErrMigration e \<in> Name ` set reverted))"

section \<open>Example data\<close>

text \<open>
  The lower-casing of ASCII strings; a database whose schema is the list of the statements
  it has executed, and which refuses the statements that begin with \<open>FAIL\<close>; a stand-in for
  the checksum; files, definitions and tables for the instances below.
\<close>

definition asciiToLower :: "string \<Rightarrow> string" where
  \<comment> \<open>what \<open>strings.ToLower\<close> returns on a string of ASCII bytes\<close>
  "asciiToLower s =
     map (\<lambda>c. case map_of (zip ''ABCDEFGHIJKLMNOPQRSTUVWXYZ'' ''abcdefghijklmnopqrstuvwxyz'') c of
                Some l \<Rightarrow> l
              | None \<Rightarrow> c) s"

definition logExec :: "string list exec" where
  "logExec stmt tx = (if HasPrefix stmt ''FAIL'' then Inl ''syntax error'' else Inr (tx @ [stmt]))"

definition demoChecksum :: "string \<Rightarrow> string" where
  "demoChecksum content = ''sha:'' @ content"

definition demoContent :: string where
  "demoContent = ''-- +migrate Up'' @ [newline] @ ''SELECT 1;'' @ [newline]
                 @ ''-- +migrate Down'' @ [newline] @ ''SELECT 2;''"

definition otherContent :: string where
  "otherContent = ''-- +migrate Up'' @ [newline] @ ''SELECT 3;'' @ [newline]
                  @ ''-- +migrate Down'' @ [newline] @ ''SELECT 4;''"

definition sameLabelTree :: fsnode where
  \<comment> \<open>two files of different dates and contents with one label\<close>
  "sameLabelTree =
     Dir ''m'' [File ''2025_01_01_000001_a.sql'' (Inr demoContent),
                File ''2025_01_02_000001_a.sql'' (Inr otherContent)]"

definition defA :: Migration where
  "defA = \<lparr>ID = 0, Name = ''a'', Filename = ''2025_01_01_000001_a.sql'',
           Filepath = ''/m/2025_01_01_000001_a.sql'', Batch = 0, Checksum = ''ca'',
           UpSQL = ''CREATE a;'', DownSQL = ''DROP a;''\<rparr>"

definition defB :: Migration where
  "defB = \<lparr>ID = 0, Name = ''b'', Filename = ''2025_01_01_000002_b.sql'',
           Filepath = ''/m/2025_01_01_000002_b.sql'', Batch = 0, Checksum = ''cb'',
           UpSQL = ''CREATE b;'', DownSQL = ''DROP b;''\<rparr>"

definition emptyDb :: "string list Database" where
  "emptyDb = \<lparr>ledger = [], serial = 1, schema = []\<rparr>"

definition appliedDb :: "string list Database" where
  \<comment> \<open>both definitions applied, in one batch\<close>
  "appliedDb =
     \<lparr>ledger = [\<lparr>row_id = 1, row_migration = ''a'', row_batch = 1, row_checksum = ''ca''\<rparr>,
                \<lparr>row_id = 2, row_migration = ''b'', row_batch = 1, row_checksum = ''cb''\<rparr>],
      serial = 3, schema = [''CREATE a'', ''CREATE b'']\<rparr>"

definition templateUpSQL :: string where
  \<comment> \<open>the forward body that the generator writes for \<open>create_products_table\<close>, its column
      list shortened\<close>
  "templateUpSQL =
     ''CREATE TABLE products (id UUID PRIMARY KEY);'' @ [newline] @ [newline]
     @ ''-- Create indexes for performance'' @ [newline]
     @ ''CREATE INDEX idx_products_created_at ON products(created_at);''"

definition demoTree :: fsnode where
  "demoTree =
     Dir ''m'' [File ''bad.sql'' (Inr demoContent),
                File ''2025_01_01_000001_a.sql'' (Inr demoContent)]"

definition nestedTree :: fsnode where
  "nestedTree = Dir ''m'' [Dir ''sub'' [File ''2025_01_01_000001_a.sql'' (Inr demoContent)]]"

definition defBedited :: Migration where
  "defBedited = defB\<lparr>Checksum := ''cb-edited''\<rparr>"

definition defC :: Migration where
  "defC = \<lparr>ID = 0, Name = ''c'', Filename = ''2025_01_01_000003_c.sql'',
           Filepath = ''/m/2025_01_01_000003_c.sql'', Batch = 0, Checksum = ''cc'',
           UpSQL = ''CREATE c;'', DownSQL = ''DROP c;''\<rparr>"

definition okExec :: "string list exec" where
  "okExec stmt tx = Inr (tx @ [stmt])"

definition rowA :: LedgerRow where
  "rowA = \<lparr>row_id = 1, row_migration = ''a'', row_batch = 1, row_checksum = ''ca''\<rparr>"

definition rowB :: LedgerRow where
  "rowB = \<lparr>row_id = 2, row_migration = ''b'', row_batch = 1, row_checksum = ''cb''\<rparr>"

section \<open>Properties of the names\<close>

lemma sanitized_word_chars: "list_all isWordChar (SanitizeMigrationName ToLower name)"
proof -
  have pre: "list_all isWordChar ''migration_''"
    by (simp add: isWordChar_def isLower_def isUpper_def isDigit_def)
  have core: "list_all isWordChar (filter isWordChar (ToSnakeCase ToLower name))"
    by (simp add: list_all_iff)
  show ?thesis
    using pre core by (simp add: SanitizeMigrationName_def Let_def)
qed

lemma sanitized_no_leading_digit:
  "(case SanitizeMigrationName ToLower name of [] \<Rightarrow> True | c # r \<Rightarrow> \<not> isDigit c)"
  by (cases "filter isWordChar (ToSnakeCase ToLower name)")
     (simp_all add: SanitizeMigrationName_def Let_def isDigit_def)

text \<open>
  C9. Whatever \<open>strings.ToLower\<close> returns, the file that \<open>generate(label)\<close> writes is named by
  the timestamp, an underscore, the sanitised name and \<open>.sql\<close>. The sanitised name has
  letters, digits and underscores only, never begins with a digit, and is what is left of
  the snake-cased label once every other byte is removed, with \<open>migration_\<close> in front when
  that would begin with a digit.
\<close>

theorem generated_filename_sanitized:
  "(let name1 = (if ValidateMigrationName label then label
                 else SanitizeMigrationName ToLower label);
        embedded = SanitizeMigrationName ToLower name1;
        core = filter isWordChar (ToSnakeCase ToLower name1)
    in GenerateMigration_filename ToLower ts label = ts @ ''_'' @ embedded @ ''.sql''
       \<and> list_all isWordChar embedded
       \<and> (case embedded of [] \<Rightarrow> True | c # r \<Rightarrow> \<not> isDigit c)
       \<and> embedded = (if core \<noteq> [] \<and> isDigit (hd core) then ''migration_'' @ core else core))"
proof -
  define name1 where
    "name1 = (if ValidateMigrationName label then label
              else SanitizeMigrationName ToLower label)"
  have fname: "GenerateMigration_filename ToLower ts label =
                 ts @ ''_'' @ SanitizeMigrationName ToLower name1 @ ''.sql''"
    by (simp add: GenerateMigration_filename_def GenerateMigrationFilename_def name1_def)
  have shape: "SanitizeMigrationName ToLower name1 =
                 (if filter isWordChar (ToSnakeCase ToLower name1) \<noteq> []
                     \<and> isDigit (hd (filter isWordChar (ToSnakeCase ToLower name1)))
                  then ''migration_'' @ filter isWordChar (ToSnakeCase ToLower name1)
                  else filter isWordChar (ToSnakeCase ToLower name1))"
    by (simp add: SanitizeMigrationName_def Let_def)
  show ?thesis
    unfolding Let_def name1_def [symmetric]
    using fname shape sanitized_word_chars [of ToLower name1]
      sanitized_no_leading_digit [of ToLower name1]
    by blast
qed

theorem generated_filename_witness:
  "GenerateMigration_filename asciiToLower ''2025_06_14_180302'' ''2 Fast-Users!'' =
     ''2025_06_14_180302_migration_2_fast_users.sql''"
proof -
  have "SanitizeMigrationName asciiToLower ''2 Fast-Users!'' = ''migration_2_fast_users''"
    by code_simp
  moreover have "SanitizeMigrationName asciiToLower ''migration_2_fast_users'' =
                   ''migration_2_fast_users''"
    by code_simp
  moreover have "\<not> ValidateMigrationName ''2 Fast-Users!''"
    by code_simp
  ultimately show ?thesis
    using generated_filename_sanitized
            [of "''2 Fast-Users!''" asciiToLower "''2025_06_14_180302''"]
    by (simp add: Let_def)
qed

section \<open>Properties of the execution of a body\<close>

text \<open>
  C2, at the forward body of the generator's own template. The body splits into two
  fragments. The second one begins with a comment line and goes on with \<open>CREATE INDEX\<close>; it
  is not made of comments only, and it is skipped: the one statement that reaches the
  database is \<open>CREATE TABLE\<close>.
\<close>

theorem leading_comment_drops_statement:
  "splitSQLStatements (TrimSpace templateUpSQL) =
     [''CREATE TABLE products (id UUID PRIMARY KEY)'',
      ''-- Create indexes for performance'' @ [newline]
        @ ''CREATE INDEX idx_products_created_at ON products(created_at)'']
   \<and> executeMigrationSQL logExec [] templateUpSQL ''create_products_table'' =
       Inr [''CREATE TABLE products (id UUID PRIMARY KEY)'']"
  by code_simp

text \<open>
  An error of the loop carries the name of the migration and the position, counted from 1
  among the non-empty fragments (the skipped ones too), of the statement that failed.
\<close>

lemma execStatements_error:
  "execStatements exec name i stmts tx = Inl e \<Longrightarrow>
   \<exists>k < length stmts. \<exists>details.
      e = NewMigrationError (''Failed to execute SQL statement '' @ show_nat (i + k + 1))
            details name
      \<and> \<not> HasPrefix (TrimSpace (stmts ! k)) ''--''"
proof (induction stmts arbitrary: i tx)
  case Nil
  then show ?case by simp
next
  case (Cons s stmts)
  show ?case
  proof (cases "TrimSpace s = [] \<or> HasPrefix (TrimSpace s) ''--''")
    case True
    with Cons.prems have "execStatements exec name (i + 1) stmts tx = Inl e"
      by (auto simp: Let_def split: if_splits)
    from Cons.IH [OF this] obtain k details where
      "k < length stmts"
      "e = NewMigrationError (''Failed to execute SQL statement '' @ show_nat (i + 1 + k + 1))
             details name"
      "\<not> HasPrefix (TrimSpace (stmts ! k)) ''--''"
      by blast
    then show ?thesis
      by (intro exI [of _ "Suc k"]) (auto simp: add.commute add.left_commute)
  next
    case False
    show ?thesis
    proof (cases "exec (TrimSpace s) tx")
      case (Inl err)
      with False Cons.prems show ?thesis
        by (intro exI [of _ 0]) (auto simp: Let_def)
    next
      case (Inr tx1)
      with False Cons.prems have "execStatements exec name (i + 1) stmts tx1 = Inl e"
        by (auto simp: Let_def)
      from Cons.IH [OF this] obtain k details where
        "k < length stmts"
        "e = NewMigrationError (''Failed to execute SQL statement '' @ show_nat (i + 1 + k + 1))
               details name"
        "\<not> HasPrefix (TrimSpace (stmts ! k)) ''--''"
        by blast
      then show ?thesis
        by (intro exI [of _ "Suc k"]) (auto simp: add.commute add.left_commute)
    qed
  qed
qed

section \<open>Properties of discovery\<close>

lemma walkFn_append:
  "walkFn h (xs @ ys) acc =
     (case walkFn h xs acc of Inl e \<Rightarrow> Inl e | Inr ms \<Rightarrow> walkFn h ys ms)"
  by (induction h xs acc rule: walkFn.induct) (simp_all split: sum.splits)

lemma loadMigrationFile_Filepath: "loadMigrationFile h p c = Inr m \<Longrightarrow> Filepath m = p"
  by (auto simp: loadMigrationFile_def ReadFile_def Let_def
      split: sum.splits option.splits prod.splits)

lemma loadMigrationFile_ok:
  "\<not> isl c \<Longrightarrow> ParseMigrationFilename (baseName p) \<noteq> None
     \<Longrightarrow> \<exists>m. loadMigrationFile h p c = Inr m"
  by (cases c)
     (auto simp: loadMigrationFile_def ReadFile_def Let_def
       split: sum.splits option.splits prod.splits)

lemma loadMigrationFile_bad_name:
  "ParseMigrationFilename (baseName p) = None \<Longrightarrow>
   loadMigrationFile h p (Inr content) =
     Inl (NewValidationError ''Invalid migration filename'' (baseName p))"
  by (simp add: loadMigrationFile_def ReadFile_def Let_def)

lemma walkFn_accepted:
  "list_all visitAccepted vs \<Longrightarrow> \<exists>ms. walkFn h vs acc = Inr ms"
proof (induction h vs acc rule: walkFn.induct)
  case (4 checksum p c vs migrations)
  show ?case
  proof (cases "HasSuffix p ''.sql''")
    case True
    with 4 have "\<not> isl c" "ParseMigrationFilename (baseName p) \<noteq> None"
      by simp_all
    then obtain m where m: "loadMigrationFile checksum p c = Inr m"
      using loadMigrationFile_ok by blast
    with 4 True show ?thesis
      by simp
  next
    case False
    with 4 show ?thesis
      by simp
  qed
qed simp_all

lemma walkFn_paths:
  "walkFn h vs acc = Inr ms \<Longrightarrow> map Filepath ms = map Filepath acc @ sqlFiles vs"
proof (induction h vs acc arbitrary: ms rule: walkFn.induct)
  case (4 checksum p c vs migrations)
  then show ?case
    by (auto split: if_splits sum.splits dest: loadMigrationFile_Filepath)
qed simp_all

lemma validation_text:
  "Error (NewValidationError msg details) = ''[validation] '' @ msg @ '': '' @ details"
  by (simp add: Error_def NewValidationError_def)

lemma set_sqlFiles:
  "set (sqlFiles vs) = {p. \<exists>c. VisitFile p c \<in> set vs \<and> HasSuffix p ''.sql''}"
  by (induction vs rule: sqlFiles.induct) auto

lemma HasSuffix_append: "HasSuffix f s \<Longrightarrow> HasSuffix (a @ f) s"
  by (auto simp: HasSuffix_def)

lemma walkDir_child:
  "e \<in> set es \<Longrightarrow>
   set (walkDir (joinPath path (node_name e)) e) \<subseteq> set (walkDir path (Dir n es))"
  by auto

text \<open>
  C8. When the walk has reached, without an error, a readable \<open>.sql\<close> file whose name does
  not parse, \<open>loadMigrationFile\<close> gives the validation error \<open>Invalid migration filename\<close> with
  the filename as its details; this ends the walk, and \<open>LoadMigrations\<close> returns no list but
  an error, \<open>Failed to load migrations\<close>, whose details are the text of that validation
  error with the filename in it.
\<close>

theorem bad_filename_aborts_discovery:
  assumes "EnsureDirectoryExists path root = Inr tree"
    and "WalkDir path tree = pre @ VisitFile p (Inr content) # post"
    and "list_all visitAccepted pre"
    and "HasSuffix p ''.sql''"
    and "ParseMigrationFilename (baseName p) = None"
  shows "loadMigrationFile h p (Inr content) =
           Inl (NewValidationError ''Invalid migration filename'' (baseName p))
         \<and> LoadMigrations h path root =
           Inl (NewFileError ''Failed to load migrations''
                  (''[validation] Invalid migration filename: '' @ baseName p))"
proof -
  obtain ms where pre: "walkFn h pre [] = Inr ms"
    using walkFn_accepted [OF assms(3)] by blast
  have bad: "loadMigrationFile h p (Inr content) =
               Inl (NewValidationError ''Invalid migration filename'' (baseName p))"
    using assms(5) by (rule loadMigrationFile_bad_name)
  have "walkFn h (WalkDir path tree) [] =
          Inl (Error (NewValidationError ''Invalid migration filename'' (baseName p)))"
    using pre bad assms(4) by (simp add: assms(2) walkFn_append)
  then show ?thesis
    using assms(1) bad by (simp add: LoadMigrations_def validation_text)
qed

theorem bad_filename_witness:
  "LoadMigrations demoChecksum ''/m'' (Some demoTree) =
     Inl (NewFileError ''Failed to load migrations''
            ''[validation] Invalid migration filename: bad.sql'')"
proof -
  have 1: "EnsureDirectoryExists ''/m'' (Some demoTree) = Inr demoTree"
    by (simp add: EnsureDirectoryExists_def demoTree_def)
  have 2: "WalkDir ''/m'' demoTree =
             [VisitDir ''/m'', VisitFile ''/m/2025_01_01_000001_a.sql'' (Inr demoContent)]
               @ VisitFile ''/m/bad.sql'' (Inr demoContent) # []"
    by code_simp
  have 3: "list_all visitAccepted
             [VisitDir ''/m'', VisitFile ''/m/2025_01_01_000001_a.sql'' (Inr demoContent)]"
    by code_simp
  have 4: "HasSuffix ''/m/bad.sql'' ''.sql''"
    by code_simp
  have 5: "ParseMigrationFilename (baseName ''/m/bad.sql'') = None"
    by code_simp
  have 6: "baseName ''/m/bad.sql'' = ''bad.sql''"
    by code_simp
  show ?thesis
    using bad_filename_aborts_discovery [OF 1 2 3 4 5, of demoChecksum] by (simp add: 6)
qed

text \<open>
  C3, as the code has it. The definitions that \<open>LoadMigrations\<close> returns are sorted by
  filename, and their paths are the paths of the \<open>.sql\<close> files that the walk visits, each
  once. The walk goes into subdirectories: a file of a subdirectory of the migrations
  directory whose path ends in \<open>.sql\<close> is among the definitions returned.
\<close>

theorem discovery_sorted_all_depths:
  assumes "LoadMigrations h path (Some (Dir n es)) = Inr ms"
  shows "sorted (map Filename ms)
         \<and> mset (map Filepath ms) = mset (sqlFiles (WalkDir path (Dir n es)))
         \<and> (\<forall>d sub f c. Dir d sub \<in> set es \<and> File f c \<in> set sub
                  \<and> HasSuffix (joinPath (joinPath path d) f) ''.sql''
               \<longrightarrow> joinPath (joinPath path d) f \<in> set (map Filepath ms))"
proof -
  from assms obtain loaded where
    walk: "walkFn h (WalkDir path (Dir n es)) [] = Inr loaded" and
    ms: "ms = sort_key Filename loaded"
    by (auto simp: LoadMigrations_def EnsureDirectoryExists_def split: sum.splits)
  have sorted: "sorted (map Filename ms)"
    by (simp add: ms)
  have paths: "map Filepath loaded = sqlFiles (WalkDir path (Dir n es))"
    using walkFn_paths [OF walk] by simp
  have "mset (map Filepath ms) = mset (map Filepath loaded)"
    by (simp add: ms)
  then have perm: "mset (map Filepath ms) = mset (sqlFiles (WalkDir path (Dir n es)))"
    by (simp add: paths)
  have deep: "joinPath (joinPath path d) f \<in> set (map Filepath ms)"
    if "Dir d sub \<in> set es" "File f c \<in> set sub"
       "HasSuffix (joinPath (joinPath path d) f) ''.sql''" for d sub f c
  proof -
    have "VisitFile (joinPath (joinPath path d) f) c
            \<in> set (walkDir (joinPath path d) (Dir d sub))"
      using that(2) by force
    then have "VisitFile (joinPath (joinPath path d) f) c \<in> set (walkDir path (Dir n es))"
      using walkDir_child [OF that(1), of path n] by auto
    then have "joinPath (joinPath path d) f \<in> set (sqlFiles (WalkDir path (Dir n es)))"
      using that(3) by (auto simp: set_sqlFiles WalkDir_def)
    then show ?thesis
      using perm by (metis set_mset_mset)
  qed
  show ?thesis
    using sorted perm deep by blast
qed

text \<open>
  The claim as stated fails: the only migration file is in a subdirectory, and it is
  returned.
\<close>

theorem discovery_enters_subdirectories:
  "LoadMigrations demoChecksum ''/m'' (Some nestedTree) =
     Inr [\<lparr>ID = 0, Name = ''a'', Filename = ''2025_01_01_000001_a.sql'',
           Filepath = ''/m/sub/2025_01_01_000001_a.sql'', Batch = 0,
           Checksum = demoChecksum demoContent, UpSQL = ''SELECT 1;'',
           DownSQL = ''SELECT 2;''\<rparr>]"
  by code_simp

theorem discovery_sorted_witness:
  "Dir ''sub'' [File ''2025_01_01_000001_a.sql'' (Inr demoContent)]
     \<in> set [Dir ''sub'' [File ''2025_01_01_000001_a.sql'' (Inr demoContent)]]
   \<and> joinPath (joinPath ''/m/'' ''sub'') ''2025_01_01_000001_a.sql'' =
       ''/m/sub/2025_01_01_000001_a.sql''
   \<and> ''/m/sub/2025_01_01_000001_a.sql'' \<in> set (sqlFiles (WalkDir ''/m/'' nestedTree))
   \<and> map Filepath
        [\<lparr>ID = 0, Name = ''a'', Filename = ''2025_01_01_000001_a.sql'',
          Filepath = ''/m/sub/2025_01_01_000001_a.sql'', Batch = 0,
          Checksum = demoChecksum demoContent, UpSQL = ''SELECT 1;'',
          DownSQL = ''SELECT 2;''\<rparr>] = [''/m/sub/2025_01_01_000001_a.sql'']"
proof -
  have load: "LoadMigrations demoChecksum ''/m/''
          (Some (Dir ''m'' [Dir ''sub'' [File ''2025_01_01_000001_a.sql'' (Inr demoContent)]])) =
     Inr [\<lparr>ID = 0, Name = ''a'', Filename = ''2025_01_01_000001_a.sql'',
           Filepath = ''/m/sub/2025_01_01_000001_a.sql'', Batch = 0,
           Checksum = demoChecksum demoContent, UpSQL = ''SELECT 1;'',
           DownSQL = ''SELECT 2;''\<rparr>]"
    by code_simp
  have joined: "joinPath (joinPath ''/m/'' ''sub'') ''2025_01_01_000001_a.sql'' =
                  ''/m/sub/2025_01_01_000001_a.sql''"
    by code_simp
  have suffix: "HasSuffix ''/m/sub/2025_01_01_000001_a.sql'' ''.sql''"
    by code_simp
  show ?thesis
    using discovery_sorted_all_depths [OF load] joined suffix
    by (auto simp: nestedTree_def dest: mset_eq_setD)
qed

section \<open>Properties of the tracking table and of apply\<close>

lemma executed_names:
  "fold (\<lambda>m mp. mp(Name m := True)) xs f n = (f n \<or> n \<in> Name ` set xs)"
  by (induction xs arbitrary: f) auto

lemma Name_scanRow [simp]: "Name (scanRow r) = row_migration r"
  by (simp add: scanRow_def)

lemma GetExecutedMigrations_names:
  "Name ` set (GetExecutedMigrations db) = row_migration ` set (ledger db)"
  by (auto simp: GetExecutedMigrations_def image_iff)

lemma GetPendingMigrations_filter:
  "GetPendingMigrations db allMigrations =
     filter (\<lambda>m. Name m \<notin> row_migration ` set (ledger db)) allMigrations"
  by (simp add: GetPendingMigrations_def executed_names GetExecutedMigrations_names)

lemma storedChecksum_None:
  "storedChecksum db name = None \<longleftrightarrow> name \<notin> row_migration ` set (ledger db)"
  by (auto simp: storedChecksum_def find_None_iff)

lemma VerifyChecksum_None:
  "VerifyChecksum db m = None \<longleftrightarrow>
     storedChecksum db (Name m) = None \<or> storedChecksum db (Name m) = Some (Checksum m)"
  by (auto simp: VerifyChecksum_def split: option.splits)

lemma verifyChecksums_None:
  "verifyChecksums db ms = None \<longleftrightarrow> (\<forall>m\<in>set ms. VerifyChecksum db m = None)"
  by (induction ms) (auto split: option.splits)

lemma verifyChecksums_first:
  "(\<forall>x\<in>set pre. VerifyChecksum db x = None) \<Longrightarrow> VerifyChecksum db m = Some e
     \<Longrightarrow> verifyChecksums db (pre @ m # post) = Some e"
  by (induction pre) auto

lemma sqlMax_Max: "sqlMax xs = (if xs = [] then None else Some (Max (set xs)))"
proof (cases xs)
  case Nil
  then show ?thesis by simp
next
  case (Cons x rest)
  then show ?thesis
    using Max.set_eq_fold [of x rest] by simp
qed

lemma GetLastBatch_Max:
  "GetLastBatch db = (if ledger db = [] then 0 else Max (row_batch ` set (ledger db)))"
  by (simp add: GetLastBatch_def sqlMax_Max)

lemma runSingleMigration_failure:
  "runSingleMigration exec db m b = (Some e, db1) \<Longrightarrow> db1 = db"
  by (auto simp: runSingleMigration_def split: sum.splits)

lemma runSingleMigration_success:
  assumes "runSingleMigration exec db m b = (None, db1)"
  shows "Name m \<notin> row_migration ` set (ledger db)"
    and "ledger db1 = ledger db @ [\<lparr>row_id = serial db, row_migration = Name m, row_batch = b,
                                    row_checksum = Checksum m\<rparr>]"
    and "serial db1 = serial db + 1"
    and "executeMigrationSQL exec (schema db) (UpSQL m) (Name m) = Inr (schema db1)"
  using assms
  by (auto simp: runSingleMigration_def RecordMigration_def split: sum.splits if_splits)

lemma runEach_success:
  "runEach exec db ms b = (None, db1) \<Longrightarrow>
   \<exists>new. ledger db1 = ledger db @ new
        \<and> map row_migration new = map Name ms
        \<and> map row_checksum new = map Checksum ms
        \<and> map row_batch new = replicate (length ms) b
        \<and> distinct (map Name ms)
        \<and> Name ` set ms \<inter> row_migration ` set (ledger db) = {}"
proof (induction ms arbitrary: db)
  case Nil
  then show ?case by simp
next
  case (Cons m ms)
  from Cons.prems obtain db2 where
    one: "runSingleMigration exec db m b = (None, db2)" and
    rest: "runEach exec db2 ms b = (None, db1)"
    by (auto split: prod.splits option.splits)
  note s = runSingleMigration_success [OF one]
  from Cons.IH [OF rest] obtain new where new:
    "ledger db1 = ledger db2 @ new" "map row_migration new = map Name ms"
    "map row_checksum new = map Checksum ms" "map row_batch new = replicate (length ms) b"
    "distinct (map Name ms)" "Name ` set ms \<inter> row_migration ` set (ledger db2) = {}"
    by blast
  let ?row = "\<lparr>row_id = serial db, row_migration = Name m, row_batch = b,
                row_checksum = Checksum m\<rparr>"
  have "ledger db1 = ledger db @ (?row # new)"
    using new(1) s(2) by simp
  moreover have "Name m \<notin> Name ` set ms"
    using new(6) s(2) by auto
  moreover have "Name ` set (m # ms) \<inter> row_migration ` set (ledger db) = {}"
    using new(6) s(1) s(2) by auto
  ultimately show ?case
    using new(2-5) by (intro exI [of _ "?row # new"]) simp
qed

lemma limited_nonempty: "xs \<noteq> [] \<Longrightarrow> limited limit xs \<noteq> []"
  by (auto simp: limited_def)

lemma limited_zero [simp]: "limited 0 xs = xs"
  by (simp add: limited_def)

lemma Max_after_batch:
  assumes "new \<noteq> []" "map row_batch new = replicate (length new) (GetLastBatch db + 1)"
    and "ledger db1 = ledger db @ new"
  shows "GetLastBatch db1 = GetLastBatch db + 1"
proof -
  have newb: "row_batch ` set new = {GetLastBatch db + 1}"
  proof -
    have "set (map row_batch new) = {GetLastBatch db + 1}"
      using assms(1,2) by (metis length_0_conv set_replicate)
    then show ?thesis by simp
  qed
  show ?thesis
  proof (cases "ledger db = []")
    case True
    then show ?thesis
      using assms(1,3) newb by (simp add: GetLastBatch_Max)
  next
    case False
    have fin: "finite (row_batch ` set (ledger db))" by simp
    have ne: "row_batch ` set (ledger db) \<noteq> {}" using False by simp
    have "Max (row_batch ` set (ledger db) \<union> {GetLastBatch db + 1}) =
            max (Max (row_batch ` set (ledger db))) (GetLastBatch db + 1)"
      using fin ne by (simp add: Max_Un)
    then show ?thesis
      using False assms(1,3) newb by (simp add: GetLastBatch_Max image_Un)
  qed
qed

text \<open>
  C1. \<open>apply\<close> verifies the checksums after the definitions are loaded and before anything
  is executed. The check of a migration whose name is not in the tracking table is a no-op.
  When the checks of the definitions before \<open>m\<close> pass and the checksum stored under the name
  of \<open>m\<close> differs from the checksum of its file, \<open>apply\<close> returns the validation error that
  names \<open>m\<close> and the database is as it was. When every check passes, \<open>apply\<close> goes on to run
  the pending migrations.
\<close>

theorem apply_verifies_checksums:
  "(Name x \<notin> row_migration ` set (ledger db) \<longrightarrow> VerifyChecksum db x = None)
   \<and> (allMigrations = pre @ m # post
        \<and> (\<forall>y\<in>set pre. storedChecksum db (Name y) = None
                        \<or> storedChecksum db (Name y) = Some (Checksum y))
        \<and> storedChecksum db (Name m) = Some stored \<and> stored \<noteq> Checksum m
      \<longrightarrow> Manager_RunMigrations exec (Inr allMigrations) db limit =
           (Some (NewValidationError
                    (''Migration '' @ Name m @ '' has been modified'')
                    (''stored checksum: '' @ stored @ '', current checksum: '' @ Checksum m)),
            db))
   \<and> ((\<forall>y\<in>set allMigrations. storedChecksum db (Name y) = None
                        \<or> storedChecksum db (Name y) = Some (Checksum y))
      \<longrightarrow> Manager_RunMigrations exec (Inr allMigrations) db limit =
           Executor_RunMigrations exec db (GetPendingMigrations db allMigrations) limit)"
proof (intro conjI impI)
  assume "Name x \<notin> row_migration ` set (ledger db)"
  then show "VerifyChecksum db x = None"
    by (simp add: VerifyChecksum_None storedChecksum_None)
next
  assume a: "allMigrations = pre @ m # post
        \<and> (\<forall>y\<in>set pre. storedChecksum db (Name y) = None
                        \<or> storedChecksum db (Name y) = Some (Checksum y))
        \<and> storedChecksum db (Name m) = Some stored \<and> stored \<noteq> Checksum m"
  let ?e = "NewValidationError
                    (''Migration '' @ Name m @ '' has been modified'')
                    (''stored checksum: '' @ stored @ '', current checksum: '' @ Checksum m)"
  have pre: "\<forall>y\<in>set pre. VerifyChecksum db y = None"
    using a by (simp add: VerifyChecksum_None)
  have bad: "VerifyChecksum db m = Some ?e"
    using a by (simp add: VerifyChecksum_def)
  have "verifyChecksums db allMigrations = Some ?e"
    using a verifyChecksums_first [OF pre bad] by simp
  then show "Manager_RunMigrations exec (Inr allMigrations) db limit = (Some ?e, db)"
    by (simp add: Manager_RunMigrations_def)
next
  assume "\<forall>y\<in>set allMigrations. storedChecksum db (Name y) = None
                        \<or> storedChecksum db (Name y) = Some (Checksum y)"
  then have "verifyChecksums db allMigrations = None"
    by (simp add: verifyChecksums_None VerifyChecksum_None)
  then show "Manager_RunMigrations exec (Inr allMigrations) db limit =
           Executor_RunMigrations exec db (GetPendingMigrations db allMigrations) limit"
    by (simp add: Manager_RunMigrations_def)
qed

theorem apply_verifies_checksums_witness:
  "Manager_RunMigrations logExec (Inr [defA, defBedited, defC]) appliedDb 0 =
     (Some (NewValidationError ''Migration b has been modified''
              ''stored checksum: cb, current checksum: cb-edited''), appliedDb)
   \<and> VerifyChecksum appliedDb defC = None
   \<and> Manager_RunMigrations logExec (Inr [defA, defB]) appliedDb 0 = (None, appliedDb)"
proof -
  have 1: "Name defC \<notin> row_migration ` set (ledger appliedDb)"
    by (simp add: defC_def appliedDb_def)
  have 2: "storedChecksum appliedDb (Name defA) = Some (Checksum defA)"
    by (simp add: storedChecksum_def appliedDb_def defA_def)
  have 3: "storedChecksum appliedDb (Name defBedited) = Some ''cb''"
    by (simp add: storedChecksum_def appliedDb_def defBedited_def defB_def)
  have 4: "''cb'' \<noteq> Checksum defBedited"
    by (simp add: defBedited_def)
  have 5: "storedChecksum appliedDb (Name defB) = Some (Checksum defB)"
    by (simp add: storedChecksum_def appliedDb_def defB_def)
  have 6: "Executor_RunMigrations logExec appliedDb
             (GetPendingMigrations appliedDb [defA, defB]) 0 = (None, appliedDb)"
    by (simp add: GetPendingMigrations_filter Executor_RunMigrations_def appliedDb_def
          defA_def defB_def)
  have 7: "Name defBedited = ''b''" "Checksum defBedited = ''cb-edited''"
    by (simp_all add: defBedited_def defB_def)
  show ?thesis
    using apply_verifies_checksums [of defC appliedDb "[defA, defBedited, defC]" "[defA]"
            defBedited "[defC]" "''cb''" logExec 0]
          apply_verifies_checksums [of defC appliedDb "[defA, defB]" "[]" defA "[defB]" "''x''" logExec 0]
          1 2 3 4 5 6 7
    by simp
qed

text \<open>
  C4. \<open>GetLastBatch\<close> is the greatest batch number of the table, or 0 on an empty table. When
  there is a pending migration and \<open>apply\<close> succeeds, the rows it adds (the pending
  definitions, cut to the limit) all carry the batch number \<open>GetLastBatch db + 1\<close>, and
  \<open>GetLastBatch\<close> of the new database is larger by exactly one.
\<close>

theorem batch_increases_by_one:
  "GetLastBatch db = (if ledger db = [] then 0 else Max (row_batch ` set (ledger db)))
   \<and> (GetPendingMigrations db allMigrations \<noteq> []
        \<and> Manager_RunMigrations exec (Inr allMigrations) db limit = (None, db1)
      \<longrightarrow> GetLastBatch db1 = GetLastBatch db + 1
          \<and> (\<exists>new. ledger db1 = ledger db @ new
                \<and> map row_migration new =
                    map Name (limited limit (GetPendingMigrations db allMigrations))
                \<and> map row_batch new = replicate (length new) (GetLastBatch db + 1)))"
proof (rule conjI, rule GetLastBatch_Max, rule impI)
  assume a: "GetPendingMigrations db allMigrations \<noteq> []
        \<and> Manager_RunMigrations exec (Inr allMigrations) db limit = (None, db1)"
  let ?pending = "GetPendingMigrations db allMigrations"
  from a have "Executor_RunMigrations exec db ?pending limit = (None, db1)"
    by (auto simp: Manager_RunMigrations_def Let_def split: option.splits)
  with a have run: "runEach exec db (limited limit ?pending) (GetLastBatch db + 1) = (None, db1)"
    by (simp add: Executor_RunMigrations_def)
  from runEach_success [OF run] obtain new where new:
    "ledger db1 = ledger db @ new"
    "map row_migration new = map Name (limited limit ?pending)"
    "map row_batch new = replicate (length (limited limit ?pending)) (GetLastBatch db + 1)"
    by blast
  have len: "length new = length (limited limit ?pending)"
    using new(2) by (metis length_map)
  have ne: "new \<noteq> []"
    using len limited_nonempty a by fastforce
  have b: "map row_batch new = replicate (length new) (GetLastBatch db + 1)"
    using new(3) len by simp
  show "GetLastBatch db1 = GetLastBatch db + 1
          \<and> (\<exists>new. ledger db1 = ledger db @ new
                \<and> map row_migration new = map Name (limited limit ?pending)
                \<and> map row_batch new = replicate (length new) (GetLastBatch db + 1))"
    using Max_after_batch [OF ne b new(1)] new(1,2) b by blast
qed

lemma find_app:
  "find P (xs @ ys) = (case find P xs of None \<Rightarrow> find P ys | Some x \<Rightarrow> Some x)"
  by (induction xs) simp_all

lemma storedChecksum_append:
  "ledger db1 = ledger db @ new \<Longrightarrow>
   storedChecksum db1 n =
     (case storedChecksum db n of
        Some c \<Rightarrow> Some c
      | None \<Rightarrow> map_option row_checksum (find (\<lambda>r. row_migration r = n) new))"
  by (simp add: storedChecksum_def find_app split: option.splits)

theorem batch_increases_witness:
  "GetPendingMigrations emptyDb [defA, defB] \<noteq> []
   \<and> Manager_RunMigrations logExec (Inr [defA, defB]) emptyDb 0 = (None, appliedDb)
   \<and> GetLastBatch emptyDb = 0 \<and> GetLastBatch appliedDb = 1"
proof -
  have 1: "GetPendingMigrations emptyDb [defA, defB] \<noteq> []"
    by code_simp
  have 2: "Manager_RunMigrations logExec (Inr [defA, defB]) emptyDb 0 = (None, appliedDb)"
    by code_simp
  have 3: "GetLastBatch emptyDb = 0"
    by code_simp
  show ?thesis
    using batch_increases_by_one [of emptyDb "[defA, defB]" logExec 0 appliedDb] 1 2 3
    by simp
qed

lemma find_recorded:
  "distinct (map Name ms) \<Longrightarrow> map row_migration new = map Name ms
     \<Longrightarrow> map row_checksum new = map Checksum ms \<Longrightarrow> m \<in> set ms
     \<Longrightarrow> map_option row_checksum (find (\<lambda>r. row_migration r = Name m) new) = Some (Checksum m)"
proof (induction ms arbitrary: new)
  case Nil
  then show ?case by simp
next
  case (Cons m0 ms)
  from Cons.prems(2) obtain r rest where new: "new = r # rest"
    by (cases new) auto
  show ?case
  proof (cases "row_migration r = Name m")
    case True
    with Cons.prems new have "Name m0 = Name m" by simp
    with Cons.prems(1,4) have "m = m0" by (auto simp: image_iff)
    with True Cons.prems(3) new show ?thesis by simp
  next
    case False
    with Cons.prems new have "m \<in> set ms" by auto
    with Cons.IH [of rest] Cons.prems new False show ?thesis by simp
  qed
qed

text \<open>
  C5, as the code has it. After an \<open>apply(0)\<close> that has succeeded, the name of every
  definition is in the tracking table, no definition is pending, and a second \<open>apply(0)\<close>
  succeeds and leaves the database as it is.
\<close>

theorem apply_twice_idempotent:
  assumes "Manager_RunMigrations exec (Inr allMigrations) db 0 = (None, db1)"
  shows "(\<forall>m\<in>set allMigrations. Name m \<in> row_migration ` set (ledger db1))
         \<and> GetPendingMigrations db1 allMigrations = []
         \<and> Manager_RunMigrations exec (Inr allMigrations) db1 0 = (None, db1)"
proof -
  let ?pending = "GetPendingMigrations db allMigrations"
  from assms have verified: "verifyChecksums db allMigrations = None"
    and run: "Executor_RunMigrations exec db ?pending 0 = (None, db1)"
    by (auto simp: Manager_RunMigrations_def Let_def split: option.splits)
  have each: "runEach exec db ?pending (GetLastBatch db + 1) = (None, db1)"
    using run by (cases "?pending = []") (simp_all add: Executor_RunMigrations_def)
  from runEach_success [OF each] obtain new where new:
    "ledger db1 = ledger db @ new" "map row_migration new = map Name ?pending"
    "map row_checksum new = map Checksum ?pending" "distinct (map Name ?pending)"
    by blast
  have newnames: "row_migration ` set new = Name ` set ?pending"
    using new(2) by (metis list.set_map)
  have names: "\<forall>m\<in>set allMigrations. Name m \<in> row_migration ` set (ledger db1)"
  proof
    fix m assume m: "m \<in> set allMigrations"
    show "Name m \<in> row_migration ` set (ledger db1)"
    proof (cases "Name m \<in> row_migration ` set (ledger db)")
      case True
      then show ?thesis using new(1) by auto
    next
      case False
      with m have "m \<in> set ?pending" by (simp add: GetPendingMigrations_filter)
      then have "Name m \<in> row_migration ` set new" using newnames by blast
      then show ?thesis using new(1) by auto
    qed
  qed
  then have nopending: "GetPendingMigrations db1 allMigrations = []"
    by (simp add: GetPendingMigrations_filter)
  have "VerifyChecksum db1 m = None" if m: "m \<in> set allMigrations" for m
  proof (cases "storedChecksum db (Name m)")
    case None
    then have "m \<in> set ?pending"
      using m by (simp add: GetPendingMigrations_filter storedChecksum_None)
    from find_recorded [OF new(4,2,3) this] None show ?thesis
      by (simp add: VerifyChecksum_None storedChecksum_append [OF new(1)])
  next
    case (Some c)
    moreover have "VerifyChecksum db m = None"
      using verified m by (simp add: verifyChecksums_None)
    ultimately show ?thesis
      by (simp add: VerifyChecksum_None storedChecksum_append [OF new(1)])
  qed
  then have "verifyChecksums db1 allMigrations = None"
    by (simp add: verifyChecksums_None)
  then have "Manager_RunMigrations exec (Inr allMigrations) db1 0 = (None, db1)"
    using nopending by (simp add: Manager_RunMigrations_def Executor_RunMigrations_def)
  with names nopending show ?thesis by blast
qed

theorem apply_twice_witness:
  "Manager_RunMigrations logExec (Inr [defA, defB]) emptyDb 0 = (None, appliedDb)
   \<and> GetPendingMigrations appliedDb [defA, defB] = []
   \<and> Manager_RunMigrations logExec (Inr [defA, defB]) appliedDb 0 = (None, appliedDb)"
proof -
  have first: "Manager_RunMigrations logExec (Inr [defA, defB]) emptyDb 0 = (None, appliedDb)"
    by code_simp
  show ?thesis
    using apply_twice_idempotent [OF first] first by simp
qed

text \<open>
  The claim as stated fails, for it speaks of every set of definitions. Two files with the
  label \<open>a\<close> give two definitions of the name \<open>a\<close>. The first \<open>apply(0)\<close> runs the first one and
  fails to record the second, whose name is in the table already; the second \<open>apply(0)\<close>
  fails on the checksum of the second file.
\<close>

theorem same_label_apply_twice_fails:
  "map_sum ErrMessage (map Name) (LoadMigrations demoChecksum ''/m'' (Some sameLabelTree)) =
     Inr [''a'', ''a'']
   \<and> map_option ErrMessage
        (fst (Manager_RunMigrations logExec
                (LoadMigrations demoChecksum ''/m'' (Some sameLabelTree)) emptyDb 0)) =
       Some ''Failed to record migration''
   \<and> map row_migration
        (ledger (snd (Manager_RunMigrations logExec
                        (LoadMigrations demoChecksum ''/m'' (Some sameLabelTree)) emptyDb 0))) =
       [''a'']
   \<and> map_option ErrMessage
        (fst (Manager_RunMigrations logExec
                (LoadMigrations demoChecksum ''/m'' (Some sameLabelTree))
                (snd (Manager_RunMigrations logExec
                        (LoadMigrations demoChecksum ''/m'' (Some sameLabelTree)) emptyDb 0))
                0)) =
       Some ''Migration a has been modified''"
  by code_simp

section \<open>Properties of the rollbacks\<close>

lemma execStatements_total:
  "(\<forall>stmt tx. \<not> isl (exec stmt tx)) \<Longrightarrow> \<not> isl (execStatements exec name i ss tx)"
proof (induction ss arbitrary: i tx)
  case Nil
  then show ?case by simp
next
  case (Cons s ss)
  show ?case
  proof (cases "exec (TrimSpace s) tx")
    case (Inl e)
    with Cons.prems show ?thesis by (metis sum.disc(1))
  next
    case (Inr tx1)
    with Cons show ?thesis by (simp add: Let_def)
  qed
qed

lemma executeMigrationSQL_total:
  "(\<forall>stmt tx. \<not> isl (exec stmt tx)) \<Longrightarrow> \<exists>tx1. executeMigrationSQL exec tx sql name = Inr tx1"
  using execStatements_total [of exec name 0 "splitSQLStatements (TrimSpace sql)" tx]
  by (cases "execStatements exec name 0 (splitSQLStatements (TrimSpace sql)) tx")
     (auto simp: executeMigrationSQL_def Let_def)

lemma rollbackSingleMigration_failure:
  "rollbackSingleMigration exec db m = (Some e, db1) \<Longrightarrow> db1 = db"
  by (auto simp: rollbackSingleMigration_def split: sum.splits)

lemma rollbackSingleMigration_success:
  assumes "rollbackSingleMigration exec db m = (None, db1)"
  shows "ledger db1 = filter (\<lambda>r. row_migration r \<noteq> Name m) (ledger db)"
    and "executeMigrationSQL exec (schema db) (DownSQL m) (Name m) = Inr (schema db1)"
  using assms
  by (auto simp: rollbackSingleMigration_def RemoveMigration_def split: sum.splits)

lemma rollbackSingleMigration_total:
  "(\<forall>stmt tx. \<not> isl (exec stmt tx)) \<Longrightarrow> fst (rollbackSingleMigration exec db m) = None"
  using executeMigrationSQL_total [of exec "schema db" "DownSQL m" "Name m"]
  by (auto simp: rollbackSingleMigration_def)

lemma rollbackEach_success:
  "rollbackEach exec db ms = (None, db1) \<Longrightarrow>
   ledger db1 = filter (\<lambda>r. row_migration r \<notin> Name ` set ms) (ledger db)
   \<and> runBodies exec (schema db) (downBodies ms) = Inr (schema db1)"
proof (induction ms arbitrary: db)
  case Nil
  then show ?case by (simp add: downBodies_def)
next
  case (Cons m ms)
  from Cons.prems obtain db2 where
    one: "rollbackSingleMigration exec db m = (None, db2)" and
    rest: "rollbackEach exec db2 ms = (None, db1)"
    by (auto split: prod.splits option.splits)
  note s = rollbackSingleMigration_success [OF one]
  from Cons.IH [OF rest] have
    l: "ledger db1 = filter (\<lambda>r. row_migration r \<notin> Name ` set ms) (ledger db2)" and
    b: "runBodies exec (schema db2) (downBodies ms) = Inr (schema db1)"
    by simp_all
  have "ledger db1 = filter (\<lambda>r. row_migration r \<notin> Name ` set (m # ms)) (ledger db)"
    unfolding l s(1) by (auto intro: filter_cong)
  moreover have "runBodies exec (schema db) (downBodies (m # ms)) = Inr (schema db1)"
    using s(2) b by (simp add: downBodies_def)
  ultimately show ?case by simp
qed

lemma rollbackEach_keeps:
  "r \<in> set (ledger db) \<Longrightarrow> row_migration r \<notin> Name ` set ms
     \<Longrightarrow> r \<in> set (ledger (snd (rollbackEach exec db ms)))"
proof (induction ms arbitrary: db)
  case Nil
  then show ?case by simp
next
  case (Cons m ms)
  show ?case
  proof (cases "rollbackSingleMigration exec db m")
    case (Pair res db2)
    show ?thesis
    proof (cases res)
      case None
      with Pair have "ledger db2 = filter (\<lambda>r. row_migration r \<noteq> Name m) (ledger db)"
        using rollbackSingleMigration_success(1) by blast
      with Cons.prems have "r \<in> set (ledger db2)" by auto
      with Cons.IH [of db2] Cons.prems Pair None show ?thesis by simp
    next
      case (Some e)
      with Pair have "db2 = db" using rollbackSingleMigration_failure by blast
      with Pair Some Cons.prems show ?thesis by simp
    qed
  qed
qed

lemma rollbackEach_total:
  "(\<forall>stmt tx. \<not> isl (exec stmt tx)) \<Longrightarrow> fst (rollbackEach exec db ms) = None"
proof (induction ms arbitrary: db)
  case Nil
  then show ?case by simp
next
  case (Cons m ms)
  from rollbackSingleMigration_total [OF Cons.prems, of db m]
  obtain db2 where "rollbackSingleMigration exec db m = (None, db2)"
    by (cases "rollbackSingleMigration exec db m") auto
  with Cons show ?case by simp
qed

lemma Executor_RollbackMigrations_zero:
  "Executor_RollbackMigrations exec db ms 0 = rollbackEach exec db ms"
  by (cases ms) (simp_all add: Executor_RollbackMigrations_def limited_def)

lemma fold_map_dom:
  "dom (fold (\<lambda>m mp. mp(Name m \<mapsto> m)) xs mp) = dom mp \<union> Name ` set xs"
  by (induction xs arbitrary: mp) auto

lemma fold_map_some:
  "fold (\<lambda>m mp. mp(Name m \<mapsto> m)) xs mp n = Some m
     \<Longrightarrow> (m \<in> set xs \<and> Name m = n) \<or> mp n = Some m"
proof (induction xs arbitrary: mp)
  case Nil
  then show ?case by simp
next
  case (Cons x xs)
  from Cons.IH [of "mp(Name x \<mapsto> x)"] Cons.prems show ?case
    by (auto split: if_splits)
qed

lemma migrationsMap_None:
  "migrationsMap allMigrations n = None \<longleftrightarrow> n \<notin> Name ` set allMigrations"
proof -
  have "dom (migrationsMap allMigrations) = Name ` set allMigrations"
    using fold_map_dom [of allMigrations Map.empty] by (simp add: migrationsMap_def)
  then show ?thesis
    by (metis domIff)
qed

lemma migrationsMap_Some:
  "migrationsMap allMigrations n = Some m \<Longrightarrow> m \<in> set allMigrations \<and> Name m = n"
  using fold_map_some [of allMigrations Map.empty n m] by (simp add: migrationsMap_def)

lemma withDownSQL_subset: "set (withDownSQL allMigrations rows) \<subseteq> set allMigrations"
  by (auto simp: withDownSQL_def List.map_filter_def dest: migrationsMap_Some)

lemma withDownSQL_names:
  "map Name (withDownSQL allMigrations rows) =
     filter (\<lambda>n. n \<in> Name ` set allMigrations) (map Name rows)"
proof (induction rows)
  case Nil
  then show ?case by (simp add: withDownSQL_def List.map_filter_simps)
next
  case (Cons row rows)
  show ?case
  proof (cases "migrationsMap allMigrations (Name row)")
    case None
    then have "Name row \<notin> Name ` set allMigrations" by (simp add: migrationsMap_None)
    with None Cons show ?thesis by (simp add: withDownSQL_def List.map_filter_simps)
  next
    case (Some m)
    then have "Name m = Name row" "Name row \<in> Name ` set allMigrations"
      using migrationsMap_Some migrationsMap_None by (metis, metis option.distinct(1))
    with Some Cons show ?thesis by (simp add: withDownSQL_def List.map_filter_simps)
  qed
qed

lemma withDownSQL_name_set:
  "Name ` set (withDownSQL allMigrations (map scanRow rows)) =
     {n \<in> row_migration ` set rows. n \<in> Name ` set allMigrations}"
proof -
  have "Name ` set (withDownSQL allMigrations (map scanRow rows)) =
          set (map Name (withDownSQL allMigrations (map scanRow rows)))"
    by simp
  also have "\<dots> = {n \<in> row_migration ` set rows. n \<in> Name ` set allMigrations}"
    unfolding withDownSQL_names by (auto simp: scanRow_def)
  finally show ?thesis .
qed

lemma unique_name_row:
  "distinct (map row_migration rows) \<Longrightarrow> r \<in> set rows \<Longrightarrow> r' \<in> set rows
     \<Longrightarrow> row_migration r = row_migration r' \<Longrightarrow> r = r'"
proof -
  assume "distinct (map row_migration rows)"
  then have "inj_on row_migration (set rows)"
    by (simp add: distinct_map)
  moreover assume "r \<in> set rows" "r' \<in> set rows" "row_migration r = row_migration r'"
  ultimately show "r = r'"
    by (auto dest: inj_onD)
qed

lemma reverted_rows:
  assumes "distinct (map row_migration (ledger db))" and "set rows \<subseteq> set (ledger db)"
  shows "filter (\<lambda>r. row_migration r
                   \<notin> Name ` set (withDownSQL allMigrations (map scanRow rows))) (ledger db) =
         filter (\<lambda>r. \<not> (r \<in> set rows \<and> row_migration r \<in> Name ` set allMigrations))
           (ledger db)"
proof (intro filter_cong refl)
  fix r assume r: "r \<in> set (ledger db)"
  have "row_migration r \<in> row_migration ` set rows \<longleftrightarrow> r \<in> set rows"
    using unique_name_row [OF assms(1) r] assms(2) by auto
  then show "(row_migration r \<notin> Name ` set (withDownSQL allMigrations (map scanRow rows))) =
             (\<not> (r \<in> set rows \<and> row_migration r \<in> Name ` set allMigrations))"
    by (simp add: withDownSQL_name_set)
qed

lemma limited_map: "limited n (map f xs) = map f (limited n xs)"
  by (simp add: limited_def take_map)

lemma limited_take: "0 < n \<Longrightarrow> limited n xs = take (nat n) xs"
  by (simp add: limited_def)

lemma limited_all: "n \<le> 0 \<or> int (length xs) \<le> n \<Longrightarrow> limited n xs = xs"
  by (auto simp: limited_def)

lemma set_limited: "set (limited n xs) \<subseteq> set xs"
  by (auto simp: limited_def dest: in_set_takeD)

lemma RollbackBatch_each:
  "RollbackBatch exec db b allMigrations =
     rollbackEach exec db
       (withDownSQL allMigrations
          (map scanRow (rev (sort_key row_id (filter (\<lambda>r. row_batch r = b) (ledger db))))))"
proof (cases "filter (\<lambda>r. row_batch r = b) (ledger db) = []")
  case True
  then show ?thesis
    by (simp add: RollbackBatch_def GetMigrationsByBatch_def withDownSQL_def
          List.map_filter_simps)
next
  case False
  then have "sort_key row_id (filter (\<lambda>r. row_batch r = b) (ledger db)) \<noteq> []"
    by (metis length_0_conv length_sort)
  then show ?thesis
    by (simp add: RollbackBatch_def GetMigrationsByBatch_def Executor_RollbackMigrations_zero)
qed

lemma RollbackSteps_each:
  "Manager_RollbackSteps exec (Inr allMigrations) db n =
     rollbackEach exec db
       (withDownSQL allMigrations
          (map scanRow (limited n (rev (sort_key row_id (ledger db))))))"
proof (cases "ledger db = []")
  case True
  then show ?thesis
    by (simp add: Manager_RollbackSteps_def GetExecutedMigrations_def withDownSQL_def
          List.map_filter_simps limited_def)
next
  case False
  then have "sort_key row_id (ledger db) \<noteq> []"
    by (metis length_0_conv length_sort)
  then show ?thesis
    by (simp add: Manager_RollbackSteps_def GetExecutedMigrations_def
          Executor_RollbackMigrations_zero limited_map rev_map)
qed

lemma ResetAll_each:
  "Manager_ResetAllMigrations exec (Inr allMigrations) db =
     rollbackEach exec db
       (withDownSQL allMigrations (map scanRow (rev (sort_key row_id (ledger db)))))"
proof (cases "ledger db = []")
  case True
  then show ?thesis
    by (simp add: Manager_ResetAllMigrations_def Executor_ResetAllMigrations_def
          GetExecutedMigrations_def withDownSQL_def List.map_filter_simps)
next
  case False
  then have "sort_key row_id (ledger db) \<noteq> []"
    by (metis length_0_conv length_sort)
  then show ?thesis
    by (simp add: Manager_ResetAllMigrations_def Executor_ResetAllMigrations_def
          GetExecutedMigrations_def Executor_RollbackMigrations_zero rev_map)
qed

lemma selected_reverted:
  assumes "distinct (map row_migration (ledger db))" and "set rows \<subseteq> set (ledger db)"
    and "rollbackEach exec db (withDownSQL allMigrations (map scanRow rows)) = (None, db1)"
  shows "ledger db1 =
           filter (\<lambda>r. \<not> (r \<in> set rows \<and> row_migration r \<in> Name ` set allMigrations))
             (ledger db)"
    and "set (withDownSQL allMigrations (map scanRow rows)) \<subseteq> set allMigrations"
    and "map Name (withDownSQL allMigrations (map scanRow rows)) =
           filter (\<lambda>n. n \<in> Name ` set allMigrations) (map row_migration rows)"
    and "runBodies exec (schema db) (downBodies (withDownSQL allMigrations (map scanRow rows))) =
           Inr (schema db1)"
proof -
  note s = rollbackEach_success [OF assms(3)]
  show "ledger db1 =
           filter (\<lambda>r. \<not> (r \<in> set rows \<and> row_migration r \<in> Name ` set allMigrations))
             (ledger db)"
    using s reverted_rows [OF assms(1,2)] by simp
  show "set (withDownSQL allMigrations (map scanRow rows)) \<subseteq> set allMigrations"
    by (rule withDownSQL_subset)
  show "map Name (withDownSQL allMigrations (map scanRow rows)) =
           filter (\<lambda>n. n \<in> Name ` set allMigrations) (map row_migration rows)"
    by (simp add: withDownSQL_names o_def scanRow_def)
  show "runBodies exec (schema db) (downBodies (withDownSQL allMigrations (map scanRow rows))) =
           Inr (schema db1)"
    using s by simp
qed

text \<open>
  C6, as the code has it. \<open>rollbackLastBatch\<close> is a no-op that succeeds when the highest batch
  number is 0. Otherwise, when it succeeds on a table with unique names, the rows it has
  removed are exactly the rows of that batch whose name has a definition; the definitions
  reverted are definitions loaded from the directory, their names are the names of those
  rows by descending id, and the schema is what executing their reverse bodies in that order
  gives.
\<close>

theorem rollback_last_batch:
  "(GetLastBatch db = 0 \<longrightarrow>
      Manager_RollbackMigrations exec (Inr allMigrations) db = (None, db))
   \<and> (GetLastBatch db \<noteq> 0 \<and> distinct (map row_migration (ledger db))
        \<and> Manager_RollbackMigrations exec (Inr allMigrations) db = (None, db1)
      \<longrightarrow> (let rows = rev (sort_key row_id
                           (filter (\<lambda>r. row_batch r = GetLastBatch db) (ledger db)));
               reverted = withDownSQL allMigrations (map scanRow rows)
           in ledger db1 =
                filter (\<lambda>r. \<not> (row_batch r = GetLastBatch db
                                \<and> row_migration r \<in> Name ` set allMigrations)) (ledger db)
              \<and> set reverted \<subseteq> set allMigrations
              \<and> map Name reverted =
                  filter (\<lambda>n. n \<in> Name ` set allMigrations) (map row_migration rows)
              \<and> runBodies exec (schema db) (downBodies reverted) = Inr (schema db1)))"
proof (rule conjI)
  show "GetLastBatch db = 0 \<longrightarrow>
      Manager_RollbackMigrations exec (Inr allMigrations) db = (None, db)"
    by (simp add: Manager_RollbackMigrations_def)
next
  let ?rows = "rev (sort_key row_id (filter (\<lambda>r. row_batch r = GetLastBatch db) (ledger db)))"
  show "GetLastBatch db \<noteq> 0 \<and> distinct (map row_migration (ledger db))
        \<and> Manager_RollbackMigrations exec (Inr allMigrations) db = (None, db1)
      \<longrightarrow> (let rows = ?rows;
               reverted = withDownSQL allMigrations (map scanRow rows)
           in ledger db1 =
                filter (\<lambda>r. \<not> (row_batch r = GetLastBatch db
                                \<and> row_migration r \<in> Name ` set allMigrations)) (ledger db)
              \<and> set reverted \<subseteq> set allMigrations
              \<and> map Name reverted =
                  filter (\<lambda>n. n \<in> Name ` set allMigrations) (map row_migration rows)
              \<and> runBodies exec (schema db) (downBodies reverted) = Inr (schema db1))"
  proof (rule impI)
    assume a: "GetLastBatch db \<noteq> 0 \<and> distinct (map row_migration (ledger db))
        \<and> Manager_RollbackMigrations exec (Inr allMigrations) db = (None, db1)"
    then have each: "rollbackEach exec db (withDownSQL allMigrations (map scanRow ?rows)) =
                       (None, db1)"
      by (auto simp: Manager_RollbackMigrations_def Let_def RollbackBatch_each)
    have sub: "set ?rows \<subseteq> set (ledger db)"
      by auto
    from a have d: "distinct (map row_migration (ledger db))"
      by simp
    note s = selected_reverted [OF d sub each]
    have "filter (\<lambda>r. \<not> (r \<in> set ?rows \<and> row_migration r \<in> Name ` set allMigrations))
            (ledger db) =
          filter (\<lambda>r. \<not> (row_batch r = GetLastBatch db
                          \<and> row_migration r \<in> Name ` set allMigrations)) (ledger db)"
      by (intro filter_cong refl) auto
    with s show "let rows = ?rows;
               reverted = withDownSQL allMigrations (map scanRow rows)
           in ledger db1 =
                filter (\<lambda>r. \<not> (row_batch r = GetLastBatch db
                                \<and> row_migration r \<in> Name ` set allMigrations)) (ledger db)
              \<and> set reverted \<subseteq> set allMigrations
              \<and> map Name reverted =
                  filter (\<lambda>n. n \<in> Name ` set allMigrations) (map row_migration rows)
              \<and> runBodies exec (schema db) (downBodies reverted) = Inr (schema db1)"
      by (simp add: Let_def)
  qed
qed

text \<open>
  The claim as stated fails: both rows are of batch 1, only \<open>a\<close> has a definition, the
  rollback succeeds and the row of \<open>b\<close> is still there.
\<close>

theorem rollback_leaves_entry_without_definition:
  "Manager_RollbackMigrations logExec (Inr [defA]) appliedDb =
     (None,
      \<lparr>ledger = [\<lparr>row_id = 2, row_migration = ''b'', row_batch = 1, row_checksum = ''cb''\<rparr>],
       serial = 3, schema = [''CREATE a'', ''CREATE b'', ''DROP a'']\<rparr>)"
  by code_simp

theorem rollback_last_batch_witness:
  "Manager_RollbackMigrations logExec (Inr [defA, defB]) emptyDb = (None, emptyDb)
   \<and> Manager_RollbackMigrations logExec (Inr [defA, defB]) appliedDb =
       (None, \<lparr>ledger = [], serial = 3,
               schema = [''CREATE a'', ''CREATE b'', ''DROP b'', ''DROP a'']\<rparr>)
   \<and> runBodies logExec [''CREATE a'', ''CREATE b''] (downBodies [defB, defA]) =
       Inr [''CREATE a'', ''CREATE b'', ''DROP b'', ''DROP a'']"
proof -
  have 1: "GetLastBatch emptyDb = 0"
    by code_simp
  have 2: "GetLastBatch appliedDb = 1"
    by code_simp
  have 3: "distinct (map row_migration (ledger appliedDb))"
    by code_simp
  have 4: "Manager_RollbackMigrations logExec (Inr [defA, defB]) appliedDb =
       (None, \<lparr>ledger = [], serial = 3,
               schema = [''CREATE a'', ''CREATE b'', ''DROP b'', ''DROP a'']\<rparr>)"
    by code_simp
  have 5: "withDownSQL [defA, defB]
             (map scanRow (rev (sort_key row_id
                (filter (\<lambda>r. row_batch r = 1) (ledger appliedDb))))) = [defB, defA]"
    by code_simp
  have 6: "schema appliedDb = [''CREATE a'', ''CREATE b'']"
    by (simp add: appliedDb_def)
  show ?thesis
    using rollback_last_batch [of emptyDb logExec "[defA, defB]" emptyDb]
      rollback_last_batch [of appliedDb logExec "[defA, defB]"
        "\<lparr>ledger = [], serial = 3,
          schema = [''CREATE a'', ''CREATE b'', ''DROP b'', ''DROP a'']\<rparr>"]
      1 2 3 4 5 6
    by (simp add: Let_def)
qed

text \<open>
  C7, as the code has it. \<open>rollbackSteps(n)\<close> is a no-op that succeeds on an empty table. With
  \<open>n\<close> not positive, or not below the number of rows, it is \<open>resetAll\<close>: every row is
  selected, and a shortfall is no error. It returns no error when no statement fails. For a
  positive \<open>n\<close>, when it succeeds on a table with unique names, the rows it has removed are
  exactly those of the first \<open>n\<close> rows by descending id whose name has a definition, and the
  schema is what executing the reverse bodies of their definitions in that order gives.
\<close>

theorem rollback_steps:
  "(ledger db = [] \<longrightarrow> Manager_RollbackSteps exec (Inr allMigrations) db n = (None, db))
   \<and> (n \<le> 0 \<or> int (length (ledger db)) \<le> n \<longrightarrow>
        Manager_RollbackSteps exec (Inr allMigrations) db n =
          Manager_ResetAllMigrations exec (Inr allMigrations) db)
   \<and> ((\<forall>stmt tx. \<not> isl (exec stmt tx)) \<longrightarrow>
        fst (Manager_RollbackSteps exec (Inr allMigrations) db n) = None)
   \<and> (0 < n \<and> distinct (map row_migration (ledger db))
        \<and> Manager_RollbackSteps exec (Inr allMigrations) db n = (None, db1)
      \<longrightarrow> (let rows = take (nat n) (rev (sort_key row_id (ledger db)));
               reverted = withDownSQL allMigrations (map scanRow rows)
           in ledger db1 =
                filter (\<lambda>r. \<not> (r \<in> set rows
                                \<and> row_migration r \<in> Name ` set allMigrations)) (ledger db)
              \<and> set reverted \<subseteq> set allMigrations
              \<and> map Name reverted =
                  filter (\<lambda>n. n \<in> Name ` set allMigrations) (map row_migration rows)
              \<and> runBodies exec (schema db) (downBodies reverted) = Inr (schema db1)))"
proof (intro conjI)
  show "ledger db = [] \<longrightarrow> Manager_RollbackSteps exec (Inr allMigrations) db n = (None, db)"
    by (simp add: Manager_RollbackSteps_def GetExecutedMigrations_def)
next
  show "n \<le> 0 \<or> int (length (ledger db)) \<le> n \<longrightarrow>
        Manager_RollbackSteps exec (Inr allMigrations) db n =
          Manager_ResetAllMigrations exec (Inr allMigrations) db"
  proof (rule impI)
    assume "n \<le> 0 \<or> int (length (ledger db)) \<le> n"
    then have "limited n (rev (sort_key row_id (ledger db))) = rev (sort_key row_id (ledger db))"
      by (intro limited_all) simp
    then show "Manager_RollbackSteps exec (Inr allMigrations) db n =
          Manager_ResetAllMigrations exec (Inr allMigrations) db"
      by (simp add: RollbackSteps_each ResetAll_each)
  qed
next
  show "(\<forall>stmt tx. \<not> isl (exec stmt tx)) \<longrightarrow>
        fst (Manager_RollbackSteps exec (Inr allMigrations) db n) = None"
    by (simp add: RollbackSteps_each rollbackEach_total)
next
  let ?rows = "take (nat n) (rev (sort_key row_id (ledger db)))"
  show "0 < n \<and> distinct (map row_migration (ledger db))
        \<and> Manager_RollbackSteps exec (Inr allMigrations) db n = (None, db1)
      \<longrightarrow> (let rows = ?rows;
               reverted = withDownSQL allMigrations (map scanRow rows)
           in ledger db1 =
                filter (\<lambda>r. \<not> (r \<in> set rows
                                \<and> row_migration r \<in> Name ` set allMigrations)) (ledger db)
              \<and> set reverted \<subseteq> set allMigrations
              \<and> map Name reverted =
                  filter (\<lambda>n. n \<in> Name ` set allMigrations) (map row_migration rows)
              \<and> runBodies exec (schema db) (downBodies reverted) = Inr (schema db1))"
  proof (rule impI)
    assume a: "0 < n \<and> distinct (map row_migration (ledger db))
        \<and> Manager_RollbackSteps exec (Inr allMigrations) db n = (None, db1)"
    then have each: "rollbackEach exec db (withDownSQL allMigrations (map scanRow ?rows)) =
                       (None, db1)"
      by (auto simp: RollbackSteps_each limited_take)
    have sub: "set ?rows \<subseteq> set (ledger db)"
      by (auto dest: in_set_takeD)
    from a have d: "distinct (map row_migration (ledger db))"
      by simp
    from selected_reverted [OF d sub each]
    show "let rows = ?rows;
               reverted = withDownSQL allMigrations (map scanRow rows)
           in ledger db1 =
                filter (\<lambda>r. \<not> (r \<in> set rows
                                \<and> row_migration r \<in> Name ` set allMigrations)) (ledger db)
              \<and> set reverted \<subseteq> set allMigrations
              \<and> map Name reverted =
                  filter (\<lambda>n. n \<in> Name ` set allMigrations) (map row_migration rows)
              \<and> runBodies exec (schema db) (downBodies reverted) = Inr (schema db1)"
      by (simp add: Let_def)
  qed
qed

text \<open>
  The claim as stated fails at \<open>n = 0\<close>: not the 0 most recent entries but all of them are
  reverted.
\<close>

theorem rollback_zero_steps_reverts_all:
  "Manager_RollbackSteps logExec (Inr [defA, defB]) appliedDb 0 =
     (None, \<lparr>ledger = [], serial = 3,
             schema = [''CREATE a'', ''CREATE b'', ''DROP b'', ''DROP a'']\<rparr>)"
  by code_simp

theorem rollback_steps_witness:
  "Manager_RollbackSteps logExec (Inr [defA, defB]) emptyDb 2 = (None, emptyDb)
   \<and> Manager_RollbackSteps logExec (Inr [defA, defB]) appliedDb 1 =
       (None,
        \<lparr>ledger = [\<lparr>row_id = 1, row_migration = ''a'', row_batch = 1, row_checksum = ''ca''\<rparr>],
         serial = 3, schema = [''CREATE a'', ''CREATE b'', ''DROP b'']\<rparr>)
   \<and> Manager_RollbackSteps logExec (Inr [defA, defB]) appliedDb 5 =
       Manager_ResetAllMigrations logExec (Inr [defA, defB]) appliedDb
   \<and> runBodies logExec [''CREATE a'', ''CREATE b''] (downBodies [defB]) =
       Inr [''CREATE a'', ''CREATE b'', ''DROP b'']"
proof -
  have 1: "ledger emptyDb = []"
    by (simp add: emptyDb_def)
  have 2: "distinct (map row_migration (ledger appliedDb))"
    by code_simp
  have 3: "Manager_RollbackSteps logExec (Inr [defA, defB]) appliedDb 1 =
       (None,
        \<lparr>ledger = [\<lparr>row_id = 1, row_migration = ''a'', row_batch = 1, row_checksum = ''ca''\<rparr>],
         serial = 3, schema = [''CREATE a'', ''CREATE b'', ''DROP b'']\<rparr>)"
    by code_simp
  have 4: "int (length (ledger appliedDb)) \<le> 5"
    by (simp add: appliedDb_def)
  have 5: "withDownSQL [defA, defB]
             (map scanRow (take (nat 1) (rev (sort_key row_id (ledger appliedDb))))) = [defB]"
    by code_simp
  have 6: "schema appliedDb = [''CREATE a'', ''CREATE b'']"
    by (simp add: appliedDb_def)
  show ?thesis
    using rollback_steps [of emptyDb logExec "[defA, defB]" 2 emptyDb]
      rollback_steps [of appliedDb logExec "[defA, defB]" 1
        "\<lparr>ledger = [\<lparr>row_id = 1, row_migration = ''a'', row_batch = 1,
                      row_checksum = ''ca''\<rparr>],
          serial = 3, schema = [''CREATE a'', ''CREATE b'', ''DROP b'']\<rparr>"]
      rollback_steps [of appliedDb logExec "[defA, defB]" 5 emptyDb]
      1 2 3 4 5 6
    by (simp add: Let_def)
qed

lemma TrimSpace_Nil [simp]: "TrimSpace [] = []"
  by (simp add: TrimSpace_def TrimRight_def)

lemma execStatements_execAll:
  "execStatements exec name i stmts tx = Inr tx1 \<longleftrightarrow>
   execAll exec (filter (\<lambda>stmt. stmt \<noteq> [] \<and> \<not> HasPrefix stmt ''--'') (map TrimSpace stmts)) tx
     = Some tx1"
proof (induction stmts arbitrary: i tx)
  case Nil
  then show ?case by simp
next
  case (Cons s stmts)
  show ?case
  proof (cases "TrimSpace s = [] \<or> HasPrefix (TrimSpace s) ''--''")
    case True
    with Cons.IH [of "i + 1" tx] show ?thesis
      by (auto simp: Let_def)
  next
    case False
    show ?thesis
    proof (cases "exec (TrimSpace s) tx")
      case (Inl err)
      with False show ?thesis by (simp add: Let_def)
    next
      case (Inr tx2)
      with False Cons.IH [of "i + 1" tx2] show ?thesis by (simp add: Let_def)
    qed
  qed
qed

lemma executeMigrationSQL_execAll:
  "executeMigrationSQL exec tx sql name = Inr tx1 \<longleftrightarrow>
   execAll exec (statementsOf sql) tx = Some tx1"
proof (cases "TrimSpace sql = []")
  case True
  then show ?thesis
    by (auto simp: executeMigrationSQL_def statementsOf_def splitSQLStatements_def)
next
  case False
  then show ?thesis
    by (simp add: executeMigrationSQL_def statementsOf_def execStatements_execAll)
qed

lemma execAll_append:
  "execAll exec (xs @ ys) tx =
     (case execAll exec xs tx of None \<Rightarrow> None | Some tx1 \<Rightarrow> execAll exec ys tx1)"
  by (induction xs arbitrary: tx) (simp_all split: sum.splits)

lemma runBodies_execAll:
  "runBodies exec tx (downBodies ms) = Inr tx1 \<longleftrightarrow>
   execAll exec (concat (map (\<lambda>m. statementsOf (DownSQL m)) ms)) tx = Some tx1"
proof (induction ms arbitrary: tx)
  case Nil
  then show ?case by (auto simp: downBodies_def)
next
  case (Cons m ms)
  show ?case
  proof (cases "executeMigrationSQL exec tx (DownSQL m) (Name m)")
    case (Inl e)
    then have "execAll exec (statementsOf (DownSQL m)) tx = None"
      using executeMigrationSQL_execAll [of exec tx "DownSQL m" "Name m"]
      by (cases "execAll exec (statementsOf (DownSQL m)) tx") auto
    with Inl show ?thesis
      by (simp add: downBodies_def execAll_append)
  next
    case (Inr tx2)
    then have "execAll exec (statementsOf (DownSQL m)) tx = Some tx2"
      by (simp add: executeMigrationSQL_execAll)
    with Inr Cons.IH [of tx2] show ?thesis
      by (simp add: downBodies_def execAll_append)
  qed
qed

lemma executeMigrationSQL_error:
  "executeMigrationSQL exec tx sql name = Inl e \<Longrightarrow> ErrMigration e = name"
proof -
  assume a: "executeMigrationSQL exec tx sql name = Inl e"
  then have "execStatements exec name 0 (splitSQLStatements (TrimSpace sql)) tx = Inl e"
    by (auto simp: executeMigrationSQL_def Let_def split: if_splits)
  from execStatements_error [OF this] show ?thesis
    by (auto simp: NewMigrationError_def)
qed

lemma rollbackEach_error:
  "rollbackEach exec db ms = (Some e, db1) \<Longrightarrow> ErrMigration e \<in> Name ` set ms"
proof (induction ms arbitrary: db)
  case Nil
  then show ?case by simp
next
  case (Cons m ms)
  show ?case
  proof (cases "rollbackSingleMigration exec db m")
    case (Pair res db2)
    show ?thesis
    proof (cases res)
      case None
      with Pair Cons.prems have "rollbackEach exec db2 ms = (Some e, db1)"
        by simp
      from Cons.IH [OF this] show ?thesis by simp
    next
      case (Some e2)
      with Pair Cons.prems have "e2 = e" by simp
      with Pair Some have "executeMigrationSQL exec (schema db) (DownSQL m) (Name m) = Inl e"
        by (auto simp: rollbackSingleMigration_def split: sum.splits)
      then show ?thesis
        using executeMigrationSQL_error by fastforce
    qed
  qed
qed

lemma rollbackEach_outcome:
  "revertedOutcome exec allMigrations db rows
     (rollbackEach exec db (withDownSQL allMigrations (map scanRow rows)))"
proof -
  let ?L = "withDownSQL allMigrations (map scanRow rows)"
  have sub: "set ?L \<subseteq> set allMigrations"
    by (rule withDownSQL_subset)
  have names: "map Name ?L =
                 filter (\<lambda>n. n \<in> Name ` set allMigrations) (map row_migration rows)"
    by (simp add: withDownSQL_names o_def scanRow_def)
  have out: "(case fst (rollbackEach exec db ?L) of
               None \<Rightarrow>
                 ledger (snd (rollbackEach exec db ?L)) =
                   filter (\<lambda>x. row_migration x \<notin> Name ` set ?L) (ledger db)
                 \<and> execAll exec (concat (map (\<lambda>m. statementsOf (DownSQL m)) ?L))
                       (schema db) = Some (schema (snd (rollbackEach exec db ?L)))
             | Some e \<Rightarrow> ErrMigration e \<in> Name ` set ?L)"
  proof (cases "rollbackEach exec db ?L")
    case (Pair res db1)
    show ?thesis
    proof (cases res)
      case None
      with Pair rollbackEach_success [of exec db ?L db1] show ?thesis
        by (simp add: runBodies_execAll)
    next
      case (Some e)
      with Pair rollbackEach_error [of exec db ?L e db1] show ?thesis
        by simp
    qed
  qed
  show ?thesis
    unfolding revertedOutcome_def Let_def using sub names out by blast
qed

lemma revertedOutcome_success:
  "revertedOutcome exec allMigrations db rows result \<Longrightarrow> fst result = None
     \<Longrightarrow> withDownSQL allMigrations (map scanRow rows) = reverted
     \<Longrightarrow> ledger (snd result) =
           filter (\<lambda>x. row_migration x \<notin> Name ` set reverted) (ledger db)
         \<and> execAll exec (concat (map (\<lambda>m. statementsOf (DownSQL m)) reverted)) (schema db) =
             Some (schema (snd result))"
  by (auto simp: revertedOutcome_def Let_def)

text \<open>
  C10. A row whose name has no definition among the loaded ones is still in the table after
  \<open>rollbackLastBatch\<close>, \<open>rollbackSteps(n)\<close> and \<open>resetAll\<close>, whatever they return. Each of the
  three comes to reverting the selected rows that do have a definition: on success the rows
  of these names are gone and the schema is the one left by the statements of their reverse
  bodies, executed in the order of the rows; an error is the error of one of these
  definitions, never of the row passed over; and when no statement fails, no error is
  returned.
\<close>

theorem missing_definition_skipped:
  assumes "r \<in> set (ledger db)" and "row_migration r \<notin> Name ` set allMigrations"
  shows "r \<in> set (ledger (snd (Manager_RollbackMigrations exec (Inr allMigrations) db)))
       \<and> r \<in> set (ledger (snd (Manager_RollbackSteps exec (Inr allMigrations) db n)))
       \<and> r \<in> set (ledger (snd (Manager_ResetAllMigrations exec (Inr allMigrations) db)))
       \<and> revertedOutcome exec allMigrations db
           (if GetLastBatch db = 0 then []
            else rev (sort_key row_id (filter (\<lambda>x. row_batch x = GetLastBatch db) (ledger db))))
           (Manager_RollbackMigrations exec (Inr allMigrations) db)
       \<and> revertedOutcome exec allMigrations db
           (limited n (rev (sort_key row_id (ledger db))))
           (Manager_RollbackSteps exec (Inr allMigrations) db n)
       \<and> revertedOutcome exec allMigrations db
           (rev (sort_key row_id (ledger db)))
           (Manager_ResetAllMigrations exec (Inr allMigrations) db)
       \<and> ((\<forall>stmt tx. \<not> isl (exec stmt tx)) \<longrightarrow>
            fst (Manager_RollbackMigrations exec (Inr allMigrations) db) = None
            \<and> fst (Manager_RollbackSteps exec (Inr allMigrations) db n) = None
            \<and> fst (Manager_ResetAllMigrations exec (Inr allMigrations) db) = None)"
proof -
  have orphan: "row_migration r \<notin> Name ` set (withDownSQL allMigrations rows)" for rows
    using assms(2) withDownSQL_subset [of allMigrations rows] by auto
  have keep: "r \<in> set (ledger (snd (rollbackEach exec db (withDownSQL allMigrations rows))))"
    for rows
    using assms(1) orphan by (rule rollbackEach_keeps)
  have batch: "Manager_RollbackMigrations exec (Inr allMigrations) db =
                 rollbackEach exec db
                   (withDownSQL allMigrations
                      (map scanRow
                         (if GetLastBatch db = 0 then []
                          else rev (sort_key row_id
                                 (filter (\<lambda>x. row_batch x = GetLastBatch db) (ledger db))))))"
    by (simp add: Manager_RollbackMigrations_def Let_def RollbackBatch_each withDownSQL_def
          List.map_filter_simps)
  have k1: "r \<in> set (ledger (snd (Manager_RollbackMigrations exec (Inr allMigrations) db)))"
    unfolding batch by (rule keep)
  have k2: "r \<in> set (ledger (snd (Manager_RollbackSteps exec (Inr allMigrations) db n)))"
    using keep by (simp add: RollbackSteps_each)
  have k3: "r \<in> set (ledger (snd (Manager_ResetAllMigrations exec (Inr allMigrations) db)))"
    using keep by (simp add: ResetAll_each)
  have o1: "revertedOutcome exec allMigrations db
           (if GetLastBatch db = 0 then []
            else rev (sort_key row_id (filter (\<lambda>x. row_batch x = GetLastBatch db) (ledger db))))
           (Manager_RollbackMigrations exec (Inr allMigrations) db)"
    unfolding batch by (rule rollbackEach_outcome)
  have o2: "revertedOutcome exec allMigrations db
           (limited n (rev (sort_key row_id (ledger db))))
           (Manager_RollbackSteps exec (Inr allMigrations) db n)"
    unfolding RollbackSteps_each by (rule rollbackEach_outcome)
  have o3: "revertedOutcome exec allMigrations db
           (rev (sort_key row_id (ledger db)))
           (Manager_ResetAllMigrations exec (Inr allMigrations) db)"
    unfolding ResetAll_each by (rule rollbackEach_outcome)
  have total: "fst (Manager_RollbackMigrations exec (Inr allMigrations) db) = None
            \<and> fst (Manager_RollbackSteps exec (Inr allMigrations) db n) = None
            \<and> fst (Manager_ResetAllMigrations exec (Inr allMigrations) db) = None"
    if ex: "\<forall>stmt tx. \<not> isl (exec stmt tx)"
    unfolding batch RollbackSteps_each ResetAll_each
    using ex by (simp add: rollbackEach_total)
  show ?thesis
    using k1 k2 k3 o1 o2 o3 total by blast
qed

theorem missing_definition_witness:
  "fst (Manager_RollbackMigrations okExec (Inr [defA]) appliedDb) = None
   \<and> ledger (snd (Manager_RollbackMigrations okExec (Inr [defA]) appliedDb)) = [rowB]
   \<and> schema (snd (Manager_RollbackMigrations okExec (Inr [defA]) appliedDb)) =
       [''CREATE a'', ''CREATE b'', ''DROP a'']
   \<and> fst (Manager_RollbackSteps okExec (Inr [defA]) appliedDb 2) = None
   \<and> ledger (snd (Manager_RollbackSteps okExec (Inr [defA]) appliedDb 2)) = [rowB]
   \<and> schema (snd (Manager_RollbackSteps okExec (Inr [defA]) appliedDb 2)) =
       [''CREATE a'', ''CREATE b'', ''DROP a'']
   \<and> fst (Manager_ResetAllMigrations okExec (Inr [defA]) appliedDb) = None
   \<and> ledger (snd (Manager_ResetAllMigrations okExec (Inr [defA]) appliedDb)) = [rowB]
   \<and> schema (snd (Manager_ResetAllMigrations okExec (Inr [defA]) appliedDb)) =
       [''CREATE a'', ''CREATE b'', ''DROP a'']"
proof -
  have h1: "rowB \<in> set (ledger appliedDb)"
    by (simp add: appliedDb_def rowB_def)
  have h2: "row_migration rowB \<notin> Name ` set [defA]"
    by (simp add: rowB_def defA_def)
  have t: "\<forall>stmt tx. \<not> isl (okExec stmt tx)"
    by (simp add: okExec_def)
  have rows: "(if GetLastBatch appliedDb = 0 then []
               else rev (sort_key row_id
                      (filter (\<lambda>x. row_batch x = GetLastBatch appliedDb) (ledger appliedDb)))) =
              [rowB, rowA]"
    "limited 2 (rev (sort_key row_id (ledger appliedDb))) = [rowB, rowA]"
    "rev (sort_key row_id (ledger appliedDb)) = [rowB, rowA]"
    by code_simp+
  have reverted: "withDownSQL [defA] (map scanRow [rowB, rowA]) = [defA]"
    by code_simp
  have left: "filter (\<lambda>x. row_migration x \<notin> Name ` set [defA]) (ledger appliedDb) = [rowB]"
    by (simp add: appliedDb_def defA_def rowB_def)
  have run: "execAll okExec (concat (map (\<lambda>m. statementsOf (DownSQL m)) [defA]))
               (schema appliedDb) = Some [''CREATE a'', ''CREATE b'', ''DROP a'']"
    by code_simp
  note th = missing_definition_skipped [OF h1 h2, of okExec 2]
  from th t have none:
    "fst (Manager_RollbackMigrations okExec (Inr [defA]) appliedDb) = None"
    "fst (Manager_RollbackSteps okExec (Inr [defA]) appliedDb 2) = None"
    "fst (Manager_ResetAllMigrations okExec (Inr [defA]) appliedDb) = None"
    by blast+
  have limit: "limited 2 [rowB, rowA] = [rowB, rowA]"
    by (simp add: limited_def)
  have out:
    "revertedOutcome okExec [defA] appliedDb [rowB, rowA]
       (Manager_RollbackMigrations okExec (Inr [defA]) appliedDb)"
    "revertedOutcome okExec [defA] appliedDb [rowB, rowA]
       (Manager_RollbackSteps okExec (Inr [defA]) appliedDb 2)"
    "revertedOutcome okExec [defA] appliedDb [rowB, rowA]
       (Manager_ResetAllMigrations okExec (Inr [defA]) appliedDb)"
    using th unfolding rows limit by blast+
  note s1 = revertedOutcome_success [OF out(1) none(1) reverted, unfolded left run]
  note s2 = revertedOutcome_success [OF out(2) none(2) reverted, unfolded left run]
  note s3 = revertedOutcome_success [OF out(3) none(3) reverted, unfolded left run]
  show ?thesis
    using none s1 s2 s3 by simp
qed

section \<open>The names of the tracking table stay unique\<close>

text \<open>
  The rollback properties are stated for a table without two rows of one name, as the
  \<open>UNIQUE\<close> column has it. Running and reverting migrations keep it so.
\<close>

lemma runSingleMigration_unique:
  "distinct (map row_migration (ledger db))
     \<Longrightarrow> distinct (map row_migration (ledger (snd (runSingleMigration exec db m b))))"
  by (auto simp: runSingleMigration_def RecordMigration_def split: sum.splits)

lemma runEach_unique:
  "distinct (map row_migration (ledger db))
     \<Longrightarrow> distinct (map row_migration (ledger (snd (runEach exec db ms b))))"
proof (induction ms arbitrary: db)
  case Nil
  then show ?case by simp
next
  case (Cons m ms)
  show ?case
  proof (cases "runSingleMigration exec db m b")
    case (Pair res db2)
    with runSingleMigration_unique [OF Cons.prems, of exec m b]
    have "distinct (map row_migration (ledger db2))" by simp
    with Cons.IH [of db2] Pair show ?thesis
      by (cases res) simp_all
  qed
qed

lemma rollbackEach_unique:
  "distinct (map row_migration (ledger db))
     \<Longrightarrow> distinct (map row_migration (ledger (snd (rollbackEach exec db ms))))"
proof (induction ms arbitrary: db)
  case Nil
  then show ?case by simp
next
  case (Cons m ms)
  show ?case
  proof (cases "rollbackSingleMigration exec db m")
    case (Pair res db2)
    have "distinct (map row_migration (ledger db2))"
      using Pair Cons.prems
      by (auto simp: rollbackSingleMigration_def RemoveMigration_def distinct_map_filter
          split: sum.splits)
    with Cons.IH [of db2] Pair show ?thesis
      by (cases res) simp_all
  qed
qed

end
